theory Spec2Isabelle
  imports Complex_Main "HOL-Library.Log_Nat"
begin

section \<open>Kuhn poker: game state and engine\<close>

text \<open>
  The embedding follows \<^verbatim>\<open>kuhn_poker/state.py\<close> and \<^verbatim>\<open>kuhn_poker/game.py\<close>.
  Actions and cards are Python strings, the two dictionaries of a state are maps keyed
  by the seat index, and Python's unbounded integers are \<^typ>\<open>int\<close>.  Every
  \<^verbatim>\<open>raise\<close> of the source is a value of \<open>error\<close>; the constructor records which
  \<^verbatim>\<open>raise\<close> it was (the source uses \<^verbatim>\<open>ValueError\<close> with different messages,
  and the lookups of a missing dictionary key raise \<^verbatim>\<open>KeyError\<close>).
\<close>

datatype error =
    InvalidHistory      \<comment> \<open>\<^verbatim>\<open>ValueError("Invalid betting history: ...")\<close>\<close>
  | IllegalAction       \<comment> \<open>\<^verbatim>\<open>ValueError("Illegal action ... for state ...")\<close>\<close>
  | NotTerminal         \<comment> \<open>\<^verbatim>\<open>ValueError("Cannot get payoff from non-terminal state")\<close>\<close>
  | KeyError            \<comment> \<open>a dictionary lookup of a missing key\<close>
  | TypeError           \<comment> \<open>subscripting \<^verbatim>\<open>None\<close>\<close>
  | UnpackError         \<comment> \<open>\<^verbatim>\<open>card, history = info_set.split('.')\<close> with other than two parts\<close>
  | UnknownInfoSet      \<comment> \<open>\<^verbatim>\<open>ValueError("Unknown information set: ...")\<close>\<close>
  | InvalidCard         \<comment> \<open>\<^verbatim>\<open>ValueError("Invalid card: ...")\<close>\<close>
  | ZeroDivisionError   \<comment> \<open>a division by zero\<close>
  | IndexError          \<comment> \<open>\<^verbatim>\<open>random.choice\<close> of an empty sequence\<close>
  | WeightError         \<comment> \<open>\<^verbatim>\<open>random.choices\<close>: total of weights not positive\<close>

record GameState =
  cards :: "int \<rightharpoonup> string"
  betting_history :: "string list"
  pot :: int
  current_player :: int
  is_terminal :: bool
  payoffs :: "(int \<rightharpoonup> int) option"

definition CARDS :: "string list" where
  "CARDS = [''J'', ''Q'', ''K'']"

definition CARD_VALUES :: "string \<rightharpoonup> int" where
  "CARD_VALUES = [''J'' \<mapsto> 1, ''Q'' \<mapsto> 2, ''K'' \<mapsto> 3]"

definition ANTE :: int where
  "ANTE = 1"

definition BET_SIZE :: int where
  "BET_SIZE = 1"

text \<open>A dictionary lookup \<^verbatim>\<open>d[k]\<close>: the value, or \<^verbatim>\<open>KeyError\<close>.\<close>

definition lookup :: "('k \<rightharpoonup> 'v) \<Rightarrow> 'k \<Rightarrow> error + 'v" where
  "lookup d k = (case d k of None \<Rightarrow> Inl KeyError | Some v \<Rightarrow> Inr v)"

text \<open>Sequencing of fallible steps: the first error ends the computation.\<close>

definition bind_err :: "error + 'a \<Rightarrow> ('a \<Rightarrow> error + 'b) \<Rightarrow> error + 'b" where
  "bind_err m f = (case m of Inl e \<Rightarrow> Inl e | Inr x \<Rightarrow> f x)"

text \<open>
  \<^verbatim>\<open>deal_cards\<close> copies \<^verbatim>\<open>CARDS\<close>, shuffles the copy with the module-level generator
  and returns the first two cards.  The shuffled deck is the argument here; the
  generator itself is modelled in the section on seeding.
\<close>

definition deal_cards :: "string list \<Rightarrow> (int \<rightharpoonup> string)" where
  "deal_cards deck = [0 \<mapsto> deck ! 0, 1 \<mapsto> deck ! 1]"

definition start_new_hand :: "string list \<Rightarrow> GameState" where
  "start_new_hand deck =
     \<lparr> cards = deal_cards deck,
       betting_history = [],
       pot = 2 * ANTE,
       current_player = 0,
       is_terminal = False,
       payoffs = None \<rparr>"

definition get_legal_actions :: "GameState \<Rightarrow> error + string list" where
  "get_legal_actions state =
     (if is_terminal state then Inr []
      else let history = betting_history state in
        if length history = 0 then Inr [''CHECK'', ''BET'']
        else if length history = 1 \<and> history ! 0 = ''CHECK'' then Inr [''CHECK'', ''BET'']
        else if (length history = 1 \<and> history ! 0 = ''BET'')
              \<or> (length history = 2 \<and> history ! 1 = ''BET'') then Inr [''CALL'', ''FOLD'']
        else Inl InvalidHistory)"

definition calculate_fold_payoffs :: "int \<Rightarrow> int \<Rightarrow> (int \<rightharpoonup> int)" where
  "calculate_fold_payoffs folding_player pot' =
     (let winning_player = 1 - folding_player in
      [winning_player \<mapsto> pot' div 2, folding_player \<mapsto> - (pot' div 2)])"

definition get_showdown_winner :: "(int \<rightharpoonup> string) \<Rightarrow> error + int" where
  "get_showdown_winner cs =
     bind_err (lookup cs 0) (\<lambda>c0.
     bind_err (lookup CARD_VALUES c0) (\<lambda>v0.
     bind_err (lookup cs 1) (\<lambda>c1.
     bind_err (lookup CARD_VALUES c1) (\<lambda>v1.
     if v0 > v1 then Inr 0 else Inr 1))))"

definition calculate_showdown_payoffs :: "(int \<rightharpoonup> string) \<Rightarrow> int \<Rightarrow> error + (int \<rightharpoonup> int)" where
  "calculate_showdown_payoffs cs pot' =
     bind_err (get_showdown_winner cs) (\<lambda>winner.
     Inr [winner \<mapsto> pot' div 2, 1 - winner \<mapsto> - (pot' div 2)])"

text \<open>
  \<^verbatim>\<open>apply_action\<close>.  The three branches that decide termination are kept in the
  order of the source; \<open>outcome\<close> is the pair \<^verbatim>\<open>(is_terminal, payoffs)\<close> they set.
\<close>

definition apply_action :: "GameState \<Rightarrow> string \<Rightarrow> error + GameState" where
  "apply_action state action =
     bind_err (get_legal_actions state) (\<lambda>legal.
     if action \<notin> set legal then Inl IllegalAction
     else
       let new_history = betting_history state @ [action];
           new_pot = (if action = ''BET'' then pot state + BET_SIZE
                      else if action = ''CALL'' then pot state + BET_SIZE
                      else pot state);
           new_player = 1 - current_player state;
           outcome =
             (if action = ''FOLD'' then
                Inr (True, Some (calculate_fold_payoffs (current_player state) new_pot))
              else if length new_history = 2 \<and> new_history = [''CHECK'', ''CHECK''] then
                bind_err (calculate_showdown_payoffs (cards state) new_pot)
                  (\<lambda>p. Inr (True, Some p))
              else if action = ''CALL'' then
                bind_err (calculate_showdown_payoffs (cards state) new_pot)
                  (\<lambda>p. Inr (True, Some p))
              else Inr (False, None))
       in bind_err outcome (\<lambda>(terminal, pay).
            Inr \<lparr> cards = cards state,
                  betting_history = new_history,
                  pot = new_pot,
                  current_player = (if \<not> terminal then new_player else current_player state),
                  is_terminal = terminal,
                  payoffs = pay \<rparr>))"

definition game_is_terminal :: "GameState \<Rightarrow> bool" where
  "game_is_terminal state = is_terminal state"

definition get_payoff :: "GameState \<Rightarrow> int \<Rightarrow> error + int" where
  "get_payoff state player =
     (if \<not> is_terminal state then Inl NotTerminal
      else case payoffs state of
             None \<Rightarrow> Inl TypeError
           | Some p \<Rightarrow> lookup p player)"

text \<open>
  The states of play: a hand starts from a shuffled deck (a permutation of \<open>CARDS\<close>)
  and continues by every action \<open>apply_action\<close> accepts.
\<close>

inductive reachable :: "GameState \<Rightarrow> bool" where
  start: "distinct deck \<Longrightarrow> set deck = set CARDS \<Longrightarrow> reachable (start_new_hand deck)"
| step: "reachable s \<Longrightarrow> apply_action s a = Inr s' \<Longrightarrow> reachable s'"

text \<open>
  The data model's typing of \<open>cards\<close>: each of the two seats holds one of the three
  cards.  (The source's field is a \<^verbatim>\<open>dict[int, str]\<close>; a showdown on any other
  dictionary raises \<^verbatim>\<open>KeyError\<close>.)
\<close>

definition valid_cards :: "(int \<rightharpoonup> string) \<Rightarrow> bool" where
  "valid_cards cs =
     (case (cs 0, cs 1) of
        (Some c0, Some c1) \<Rightarrow> c0 \<in> set CARDS \<and> c1 \<in> set CARDS
      | _ \<Rightarrow> False)"

text \<open>
  The shape of a state: what play determines apart from the cards and the payoffs.
  \<open>play_shapes\<close> lists the nine shapes of the game tree.
\<close>

definition shape :: "GameState \<Rightarrow> string list \<times> int \<times> int \<times> bool" where
  "shape s = (betting_history s, pot s, current_player s, is_terminal s)"

definition play_shapes :: "(string list \<times> int \<times> int \<times> bool) list" where
  "play_shapes =
     [([], 2, 0, False),
      ([''CHECK''], 2, 1, False),
      ([''BET''], 3, 1, False),
      ([''CHECK'', ''CHECK''], 2, 1, True),
      ([''CHECK'', ''BET''], 3, 0, False),
      ([''BET'', ''CALL''], 4, 1, True),
      ([''BET'', ''FOLD''], 3, 1, True),
      ([''CHECK'', ''BET'', ''CALL''], 4, 0, True),
      ([''CHECK'', ''BET'', ''FOLD''], 3, 0, True)]"

text \<open>States used as concrete inputs below.\<close>

definition hand_bet :: GameState where
  "hand_bet = \<lparr> cards = [0 \<mapsto> ''J'', 1 \<mapsto> ''Q''], betting_history = [''BET''], pot = 3,
       current_player = 1, is_terminal = False, payoffs = None \<rparr>"

definition hand_bet_fold :: GameState where
  "hand_bet_fold = \<lparr> cards = [0 \<mapsto> ''J'', 1 \<mapsto> ''Q''], betting_history = [''BET'', ''FOLD''],
       pot = 3, current_player = 1, is_terminal = True,
       payoffs = Some [0 \<mapsto> 1, 1 \<mapsto> - 1] \<rparr>"

definition hand_long :: GameState where
  "hand_long = \<lparr> cards = [0 \<mapsto> ''J'', 1 \<mapsto> ''Q''],
       betting_history = [''CHECK'', ''CHECK'', ''BET''], pot = 3,
       current_player = 1, is_terminal = False, payoffs = None \<rparr>"

section \<open>Information sets and the equilibrium table\<close>

text \<open>
  \<^verbatim>\<open>GameState.get_betting_string\<close> and \<^verbatim>\<open>GameState.get_info_set\<close> of
  \<^verbatim>\<open>kuhn_poker/state.py\<close>.  The f-string \<^verbatim>\<open>f"{card}.BET"\<close> is the card followed by
  the literal; the branches are in the order of the source, and a history of length two
  that is none of the four listed falls through to the last line, as in the source.
\<close>

definition get_betting_string :: "GameState \<Rightarrow> string" where
  "get_betting_string state = concat (betting_history state)"

definition get_info_set :: "GameState \<Rightarrow> int \<Rightarrow> error + string" where
  "get_info_set state player =
     bind_err (lookup (cards state) player) (\<lambda>card.
     let history = betting_history state in
     if history = [] then Inr (card @ ''.'')
     else if length history = 1 then
       (if history ! 0 = ''CHECK'' then Inr (card @ ''.CHECK'')
        else Inr (card @ ''.BET''))
     else if length history = 2 \<and> history = [''CHECK'', ''CHECK''] then
       Inr (card @ ''.CHECKCHECK'')
     else if length history = 2 \<and> history = [''CHECK'', ''BET''] then
       Inr (card @ ''.BET'')
     else if length history = 2 \<and> history = [''BET'', ''CALL''] then
       Inr (card @ ''.BETCALL'')
     else if length history = 2 \<and> history = [''BET'', ''FOLD''] then
       Inr (card @ ''.BETFOLD'')
     else Inr (card @ ''.'' @ get_betting_string state))"

text \<open>
  Python floats are IEEE 754 doubles.  A float is represented by the rational number it
  denotes, and \<open>fl\<close> rounds a rational to the nearest double, ties to the even
  significand (53 bits); overflow and subnormal numbers, which the probabilities here
  never reach, are not modelled.  \<open>float_div\<close> is Python's \<^verbatim>\<open>/\<close>, \<open>float_add\<close> its
  \<^verbatim>\<open>+\<close> on floats, and \<open>float_sum\<close> the built-in \<^verbatim>\<open>sum\<close>, which adds from the
  left starting at the integer 0.
\<close>

type_synonym pyfloat = rat

definition pow2 :: "int \<Rightarrow> rat" where
  "pow2 e = (if e \<ge> 0 then 2 ^ nat e else 1 / 2 ^ nat (- e))"

definition round_half_even :: "rat \<Rightarrow> int" where
  "round_half_even x =
     (let f = \<lfloor>x\<rfloor>; d = x - of_int f
      in if d < 1 / 2 then f else if d > 1 / 2 then f + 1 else if even f then f else f + 1)"

definition ilog2 :: "rat \<Rightarrow> int" where
  "ilog2 x = (let (p, q) = quotient_of x; e0 = bitlen p - bitlen q
              in if pow2 e0 \<le> x then e0 else e0 - 1)"

definition fl_pos :: "rat \<Rightarrow> pyfloat" where
  "fl_pos x = (let e = ilog2 x in of_int (round_half_even (x * pow2 (52 - e))) * pow2 (e - 52))"

definition fl :: "rat \<Rightarrow> pyfloat" where
  "fl x = (if x = 0 then 0 else if x < 0 then - fl_pos (- x) else fl_pos x)"

definition float_div :: "pyfloat \<Rightarrow> pyfloat \<Rightarrow> error + pyfloat" where
  "float_div a b = (if b = 0 then Inl ZeroDivisionError else Inr (fl (a / b)))"

definition float_add :: "pyfloat \<Rightarrow> pyfloat \<Rightarrow> pyfloat" where
  "float_add a b = fl (a + b)"

definition float_sum :: "pyfloat list \<Rightarrow> pyfloat" where
  "float_sum ps = foldl float_add 0 ps"

text \<open>
  \<^verbatim>\<open>GTOStrategy\<close> of \<^verbatim>\<open>kuhn_poker/gto_strategy.py\<close>.  A strategy is a Python
  dictionary from action to probability; it is the list of its items, in insertion
  order, because \<^verbatim>\<open>GTOAgent\<close> iterates over it.  \<open>split_on\<close> is \<^verbatim>\<open>str.split(sep)\<close>
  for a one-character separator; the unpacking \<^verbatim>\<open>card, history = ...\<close> fails unless
  there are exactly two parts.  The literals \<^verbatim>\<open>2/3\<close> and \<^verbatim>\<open>1/3\<close> are divisions of
  integers, evaluated in floating point.
\<close>

type_synonym strategy = "(string \<times> pyfloat) list"

fun split_on :: "char \<Rightarrow> string \<Rightarrow> string list" where
  "split_on c [] = [[]]"
| "split_on c (x # xs) =
     (if x = c then [] # split_on c xs
      else (case split_on c xs of
              p # ps \<Rightarrow> (x # p) # ps
            | [] \<Rightarrow> [[x]]))"

definition get_p1_strategy :: "string \<Rightarrow> error + strategy" where
  "get_p1_strategy card' =
     (if card' = ''J'' then Inr [(''CHECK'', 1), (''BET'', 0)]
      else if card' = ''Q'' then Inr [(''CHECK'', 1), (''BET'', 0)]
      else if card' = ''K'' then Inr [(''CHECK'', 0), (''BET'', 1)]
      else Inl InvalidCard)"

definition get_p2_facing_bet :: "string \<Rightarrow> error + strategy" where
  "get_p2_facing_bet card' =
     (if card' = ''J'' then Inr [(''CALL'', 0), (''FOLD'', 1)]
      else if card' = ''Q'' then Inr [(''CALL'', 1), (''FOLD'', 0)]
      else if card' = ''K'' then Inr [(''CALL'', 1), (''FOLD'', 0)]
      else Inl InvalidCard)"

definition get_p2_after_check :: "string \<Rightarrow> error + strategy" where
  "get_p2_after_check card' =
     (if card' = ''J'' then Inr [(''CHECK'', fl (2 / 3)), (''BET'', fl (1 / 3))]
      else if card' = ''Q'' then Inr [(''CHECK'', 1), (''BET'', 0)]
      else if card' = ''K'' then Inr [(''CHECK'', 0), (''BET'', 1)]
      else Inl InvalidCard)"

definition get_strategy :: "string \<Rightarrow> error + strategy" where
  "get_strategy info_set =
     (case split_on (CHR ''.'') info_set of
        [card', history] \<Rightarrow>
          if history = '''' then get_p1_strategy card'
          else if history = ''BET'' then get_p2_facing_bet card'
          else if history = ''CHECK'' then get_p2_after_check card'
          else Inl UnknownInfoSet
      | _ \<Rightarrow> Inl UnpackError)"

text \<open>
  What the table promises of a distribution \<open>d\<close> at a decision with the legal actions
  \<open>legal\<close>: its actions are the legal ones, every probability lies in \<open>[0, 1]\<close>, and the
  probabilities sum to 1 within \<open>1e-6\<close>, both as Python adds them and exactly.
\<close>

definition distribution_ok :: "string list \<Rightarrow> strategy \<Rightarrow> bool" where
  "distribution_ok legal d =
     (map fst d = legal
      \<and> list_all (\<lambda>p. 0 \<le> p \<and> p \<le> 1) (map snd d)
      \<and> \<bar>float_sum (map snd d) - 1\<bar> \<le> 1 / 1000000
      \<and> \<bar>sum_list (map snd d) - 1\<bar> \<le> 1 / 1000000)"

definition hand_check_bet :: GameState where
  "hand_check_bet = \<lparr> cards = [0 \<mapsto> ''Q'', 1 \<mapsto> ''K''],
       betting_history = [''CHECK'', ''BET''], pot = 3,
       current_player = 0, is_terminal = False, payoffs = None \<rparr>"

section \<open>The equilibrium agent\<close>

text \<open>
  \<^verbatim>\<open>GTOAgent.choose_action\<close> of \<^verbatim>\<open>agents/gto_agent.py\<close> draws from Python's
  \<^verbatim>\<open>random\<close> module.  The draws are arguments: \<open>r\<close> is the integer that
  \<^verbatim>\<open>random.choice\<close> reduces to an index, \<open>u\<close> the float in \<open>[0, 1)\<close> that
  \<^verbatim>\<open>random.choices\<close> obtains from \<^verbatim>\<open>random()\<close>.  The two library functions are
  modelled after CPython: \<^verbatim>\<open>choice\<close> raises \<^verbatim>\<open>IndexError\<close> on an empty sequence;
  \<^verbatim>\<open>choices\<close> accumulates the weights, raises \<^verbatim>\<open>ValueError\<close> unless their total is
  positive, and selects by \<^verbatim>\<open>bisect_right\<close> on the cumulative weights between the
  indices \<open>0\<close> and \<open>n - 1\<close>.
\<close>

definition random_choice :: "'a list \<Rightarrow> nat \<Rightarrow> error + 'a" where
  "random_choice seq r = (if seq = [] then Inl IndexError else Inr (seq ! (r mod length seq)))"

fun accumulate_from :: "pyfloat \<Rightarrow> pyfloat list \<Rightarrow> pyfloat list" where
  "accumulate_from acc [] = [acc]"
| "accumulate_from acc (w # ws) = acc # accumulate_from (float_add acc w) ws"

definition accumulate :: "pyfloat list \<Rightarrow> pyfloat list" where
  "accumulate ws = (case ws of [] \<Rightarrow> [] | w # ws' \<Rightarrow> accumulate_from w ws')"

function bisect_right :: "pyfloat list \<Rightarrow> pyfloat \<Rightarrow> nat \<Rightarrow> nat \<Rightarrow> nat" where
  "bisect_right a x lo hi =
     (if lo < hi then
        (let mid = (lo + hi) div 2
         in if x < a ! mid then bisect_right a x lo mid
            else bisect_right a x (mid + 1) hi)
      else lo)"
  by pat_completeness auto
termination
  by (relation "measure (\<lambda>(a, x, lo, hi). hi - lo)") auto

declare bisect_right.simps [simp del]

definition random_choices :: "'a list \<Rightarrow> pyfloat list \<Rightarrow> pyfloat \<Rightarrow> error + 'a" where
  "random_choices population weights u =
     (let n = length population;
          cum_weights = accumulate weights
      in if length cum_weights \<noteq> n then Inl WeightError
         else if cum_weights = [] then Inl IndexError
         else let total = last cum_weights
              in if total \<le> 0 then Inl WeightError
                 else Inr (population ! bisect_right cum_weights (fl (u * total)) 0 (n - 1)))"

fun normalize :: "pyfloat list \<Rightarrow> pyfloat \<Rightarrow> error + pyfloat list" where
  "normalize [] total_prob = Inr []"
| "normalize (p # ps) total_prob =
     bind_err (float_div p total_prob) (\<lambda>q.
     bind_err (normalize ps total_prob) (\<lambda>qs. Inr (q # qs)))"

definition choose_action :: "GameState \<Rightarrow> string list \<Rightarrow> int \<Rightarrow> nat \<Rightarrow> pyfloat \<Rightarrow> error + string" where
  "choose_action state legal_actions player_position r u =
     bind_err (get_info_set state player_position) (\<lambda>info_set.
     bind_err (get_strategy info_set) (\<lambda>strategy.
     let legal_strategy = filter (\<lambda>(a, p). a \<in> set legal_actions) strategy
     in if legal_strategy = [] then random_choice legal_actions r
        else
          let total_prob = float_sum (map snd legal_strategy)
          in bind_err (normalize (map snd legal_strategy) total_prob) (\<lambda>normalized_probs.
             random_choices (map fst legal_strategy) normalized_probs u)))"

text \<open>An action has positive probability in the table's row for the key \<open>k\<close>.\<close>

definition positive_in :: "string \<Rightarrow> string \<Rightarrow> bool" where
  "positive_in k a =
     (case get_strategy k of Inl e \<Rightarrow> False | Inr d \<Rightarrow> list_ex (\<lambda>(b, pr). b = a \<and> 0 < pr) d)"

definition hand_start_K :: GameState where
  "hand_start_K = \<lparr> cards = [0 \<mapsto> ''K'', 1 \<mapsto> ''Q''], betting_history = [], pot = 2,
       current_player = 0, is_terminal = False, payoffs = None \<rparr>"

definition hand_check_check :: GameState where
  "hand_check_check = \<lparr> cards = [0 \<mapsto> ''K'', 1 \<mapsto> ''Q''],
       betting_history = [''CHECK'', ''CHECK''], pot = 2,
       current_player = 1, is_terminal = True, payoffs = Some [0 \<mapsto> 1, 1 \<mapsto> - 1] \<rparr>"

section \<open>Seeding and dealing\<close>

text \<open>
  \<^verbatim>\<open>KuhnPokerGame.__init__\<close> calls \<^verbatim>\<open>random.seed(seed)\<close> and \<^verbatim>\<open>deal_cards\<close> calls
  \<^verbatim>\<open>random.shuffle\<close>: both act on the generator of the \<^verbatim>\<open>random\<close> module, of which
  the process has one.  An engine object holds only its last state.  The generator is
  not part of the repository, so its state type \<open>'g\<close> and its two operations are
  parameters: \<open>seed_fn s\<close> is the generator state after \<^verbatim>\<open>random.seed(s)\<close>, and
  \<open>shuffle g deck\<close> is the shuffled deck together with the generator state after the
  shuffle.  Each operation takes the generator state of the process and returns the new
  one.
\<close>

record KuhnPokerGame =
  game_state :: "GameState option"

definition game_init :: "(int \<Rightarrow> 'g) \<Rightarrow> int option \<Rightarrow> 'g \<Rightarrow> KuhnPokerGame \<times> 'g" where
  "game_init seed_fn seed g =
     (\<lparr> game_state = None \<rparr>, (case seed of None \<Rightarrow> g | Some s \<Rightarrow> seed_fn s))"

definition game_deal_cards ::
  "('g \<Rightarrow> string list \<Rightarrow> string list \<times> 'g) \<Rightarrow> 'g \<Rightarrow> (int \<rightharpoonup> string) \<times> 'g" where
  "game_deal_cards shuffle g = (let (deck, g') = shuffle g CARDS in (deal_cards deck, g'))"

definition game_start_new_hand ::
  "('g \<Rightarrow> string list \<Rightarrow> string list \<times> 'g) \<Rightarrow> KuhnPokerGame \<Rightarrow> 'g
     \<Rightarrow> GameState \<times> KuhnPokerGame \<times> 'g" where
  "game_start_new_hand shuffle game g =
     (let (deck, g') = shuffle g CARDS;
          st = start_new_hand deck
      in (st, game\<lparr> game_state := Some st \<rparr>, g'))"

text \<open>The cards of \<open>n\<close> hands dealt one after the other by one engine.\<close>

fun deal_hands ::
  "('g \<Rightarrow> string list \<Rightarrow> string list \<times> 'g) \<Rightarrow> nat \<Rightarrow> KuhnPokerGame \<Rightarrow> 'g
     \<Rightarrow> (int \<rightharpoonup> string) list \<times> KuhnPokerGame \<times> 'g" where
  "deal_hands shuffle 0 game g = ([], game, g)"
| "deal_hands shuffle (Suc n) game g =
     (let (st, game', g') = game_start_new_hand shuffle game g;
          (rest, game'', g'') = deal_hands shuffle n game' g'
      in (cards st # rest, game'', g''))"

text \<open>
  The test \<^verbatim>\<open>test_reproducibility_with_seed\<close>: both engines are constructed with the
  seed, then each starts a hand; the result is the two dealt hands.
\<close>

definition two_engines_first_hands ::
  "(int \<Rightarrow> 'g) \<Rightarrow> ('g \<Rightarrow> string list \<Rightarrow> string list \<times> 'g) \<Rightarrow> int \<Rightarrow> 'g
     \<Rightarrow> (int \<rightharpoonup> string) \<times> (int \<rightharpoonup> string)" where
  "two_engines_first_hands seed_fn shuffle seed g0 =
     (let (game1, g1) = game_init seed_fn (Some seed) g0;
          (game2, g2) = game_init seed_fn (Some seed) g1;
          (state1, game1', g3) = game_start_new_hand shuffle game1 g2;
          (state2, game2', g4) = game_start_new_hand shuffle game2 g3
      in (cards state1, cards state2))"

text \<open>
  A generator described by the decks it hands out: its state is the list of the
  shuffles still to come.  \<open>decks_after_seed_42\<close> are the first shuffles of
  \<^verbatim>\<open>['J', 'Q', 'K']\<close> that CPython's generator produces after \<^verbatim>\<open>random.seed(42)\<close>.
\<close>

definition tape_shuffle :: "string list list \<Rightarrow> string list \<Rightarrow> string list \<times> string list list" where
  "tape_shuffle g deck = (case g of [] \<Rightarrow> (deck, []) | d # ds \<Rightarrow> (d, ds))"

definition decks_after_seed_42 :: "string list list" where
  "decks_after_seed_42 = [[''Q'', ''J'', ''K''], [''K'', ''Q'', ''J'']]"

section \<open>The tournament runner\<close>

text \<open>
  \<^verbatim>\<open>experiment/tournament.py\<close>.  An agent is any object with the operations of
  \<^verbatim>\<open>BaseAgent\<close>.  Whatever the agents and the generator keep between calls is the world
  state \<open>'w\<close>: each operation takes it and returns the new one, and
  \<^verbatim>\<open>choose_action\<close> may fail.  \<open>shuffle\<close> is the shuffle of \<^verbatim>\<open>deal_cards\<close> on that
  world.
\<close>

record 'w agent =
  name :: string
  agent_choose_action :: "GameState \<Rightarrow> string list \<Rightarrow> int \<Rightarrow> 'w \<Rightarrow> error + (string \<times> 'w)"
  observe_opponent_action :: "GameState \<Rightarrow> string \<Rightarrow> int \<Rightarrow> 'w \<Rightarrow> error + 'w"
  observe_result :: "GameState \<Rightarrow> string \<Rightarrow> GameState \<Rightarrow> int \<Rightarrow> 'w \<Rightarrow> error + 'w"

text \<open>An entry of \<^verbatim>\<open>actions_taken\<close>, and the dictionary \<^verbatim>\<open>play_hand\<close> returns.\<close>

record action_data =
  ev_position :: int
  ev_agent :: string
  ev_action :: string
  ev_card :: string

record hand_result =
  hand_id :: int
  hand_cards :: "int \<rightharpoonup> string"
  actions :: "action_data list"
  hand_betting_history :: "string list"
  hand_payoffs :: "(int \<times> int) list"
  final_pot :: int

lemma bind_err_cong [fundef_cong]:
  "m = m' \<Longrightarrow> (\<And>x. m' = Inr x \<Longrightarrow> f x = f' x) \<Longrightarrow> bind_err m f = bind_err m' f'"
  by (cases m') (simp_all add: bind_err_def)

text \<open>
  The loop \<^verbatim>\<open>while not game.is_terminal(state)\<close> of \<^verbatim>\<open>play_hand\<close>.  It ends: an
  action is applied only to a non-terminal history of at most two actions, and it makes
  the history longer.
\<close>

function play_loop ::
  "(int \<rightharpoonup> 'w agent) \<Rightarrow> GameState \<Rightarrow> action_data list \<Rightarrow> 'w
     \<Rightarrow> error + (GameState \<times> action_data list \<times> 'w)" where
  "play_loop agents st actions_taken w =
     (if game_is_terminal st then Inr (st, actions_taken, w)
      else
        bind_err (lookup agents (current_player st)) (\<lambda>ag.
        bind_err (get_legal_actions st) (\<lambda>legal_actions.
        bind_err (agent_choose_action ag st legal_actions (current_player st) w) (\<lambda>(act, w1).
        bind_err (lookup (cards st) (current_player st)) (\<lambda>crd.
        bind_err (lookup agents (1 - current_player st)) (\<lambda>opponent.
        bind_err (observe_opponent_action opponent st act (1 - current_player st) w1) (\<lambda>w2.
        bind_err (apply_action st act) (\<lambda>new_state.
        bind_err (observe_result ag st act new_state (current_player st) w2) (\<lambda>w3.
        play_loop agents new_state
          (actions_taken @ [\<lparr> ev_position = current_player st, ev_agent = name ag,
                               ev_action = act, ev_card = crd \<rparr>])
          w3)))))))))"
  by pat_completeness auto
termination
proof (relation "measure (\<lambda>(agents, st, actions_taken, w).
           if is_terminal st then 0 else 4 - length (betting_history st))")
  show "wf (measure (\<lambda>(agents :: int \<rightharpoonup> 'w agent, st, actions_taken :: action_data list, w :: 'w).
           if is_terminal st then 0 else 4 - length (betting_history st)))"
    by simp
next
  fix agents :: "int \<rightharpoonup> 'w agent" and st actions_taken and w :: 'w
    and ag legal_actions x act w1 crd opponent w2 new_state w3
  assume nt: "\<not> game_is_terminal st"
    and l: "get_legal_actions st = Inr legal_actions"
    and a: "apply_action st act = Inr new_state"
  from nt l have len: "length (betting_history st) \<le> 2"
    by (auto simp add: get_legal_actions_def game_is_terminal_def Let_def split: if_splits)
  from a l have "betting_history new_state = betting_history st @ [act]"
    by (auto simp add: apply_action_def bind_err_def Let_def split: if_splits sum.splits)
  with len nt show "((agents, new_state,
          actions_taken @ [\<lparr> ev_position = current_player st, ev_agent = name ag,
                               ev_action = act, ev_card = crd \<rparr>], w3),
         agents, st, actions_taken, w)
        \<in> measure (\<lambda>(agents, st, actions_taken, w).
              if is_terminal st then 0 else 4 - length (betting_history st))"
    by (auto simp add: game_is_terminal_def)
qed

declare play_loop.simps [simp del]

definition play_hand ::
  "('w \<Rightarrow> string list \<Rightarrow> string list \<times> 'w) \<Rightarrow> (int \<rightharpoonup> 'w agent) \<Rightarrow> int \<Rightarrow> 'w
     \<Rightarrow> error + (hand_result \<times> 'w)" where
  "play_hand shuffle agents hand_num w =
     (let (deck, w0) = shuffle w CARDS
      in bind_err (play_loop agents (start_new_hand deck) [] w0) (\<lambda>(st, actions_taken, w1).
         bind_err (get_payoff st 0) (\<lambda>p0.
         bind_err (get_payoff st 1) (\<lambda>p1.
         Inr (\<lparr> hand_id = hand_num,
                hand_cards = cards st,
                actions = actions_taken,
                hand_betting_history = betting_history st,
                hand_payoffs = [(0, p0), (1, p1)],
                final_pot = pot st \<rparr>, w1)))))"

text \<open>
  The state of the loop of \<^verbatim>\<open>run_tournament\<close>: the two dictionaries keyed by agent
  name and the hands the logger has collected.
\<close>

record tournament_state =
  profits :: "string \<rightharpoonup> int"
  action_counts :: "string \<rightharpoonup> (string \<rightharpoonup> int)"
  hands :: "hand_result list"

text \<open>\<^verbatim>\<open>for pos, payoff in hand_result['payoffs'].items(): profits[agents[pos].name] += payoff\<close>\<close>

fun update_profits ::
  "(int \<rightharpoonup> 'w agent) \<Rightarrow> (int \<times> int) list \<Rightarrow> (string \<rightharpoonup> int) \<Rightarrow> error + (string \<rightharpoonup> int)" where
  "update_profits agents [] pr = Inr pr"
| "update_profits agents ((pos, payoff) # rest) pr =
     bind_err (lookup agents pos) (\<lambda>ag.
     bind_err (lookup pr (name ag)) (\<lambda>old.
     update_profits agents rest (pr(name ag \<mapsto> old + payoff))))"

text \<open>\<^verbatim>\<open>for action_data in hand_result['actions']: action_counts[agent][action] += 1\<close>\<close>

fun update_action_counts ::
  "action_data list \<Rightarrow> (string \<rightharpoonup> (string \<rightharpoonup> int)) \<Rightarrow> error + (string \<rightharpoonup> (string \<rightharpoonup> int))" where
  "update_action_counts [] counts = Inr counts"
| "update_action_counts (e # rest) counts =
     bind_err (lookup counts (ev_agent e)) (\<lambda>row.
     bind_err (lookup row (ev_action e)) (\<lambda>old.
     update_action_counts rest (counts(ev_agent e \<mapsto> row(ev_action e \<mapsto> old + 1)))))"

text \<open>The seats of hand \<open>hand_num\<close>: the agents alternate positions.\<close>

definition seating :: "'w agent \<Rightarrow> 'w agent \<Rightarrow> int \<Rightarrow> (int \<rightharpoonup> 'w agent)" where
  "seating agent1 agent2 hand_num =
     (if hand_num mod 2 = 0 then [0 \<mapsto> agent1, 1 \<mapsto> agent2]
      else [0 \<mapsto> agent2, 1 \<mapsto> agent1])"

fun tournament_loop ::
  "('w \<Rightarrow> string list \<Rightarrow> string list \<times> 'w) \<Rightarrow> 'w agent \<Rightarrow> 'w agent \<Rightarrow> int list
     \<Rightarrow> tournament_state \<Rightarrow> 'w \<Rightarrow> error + (tournament_state \<times> 'w)" where
  "tournament_loop shuffle agent1 agent2 [] ts w = Inr (ts, w)"
| "tournament_loop shuffle agent1 agent2 (hand_num # rest) ts w =
     bind_err (play_hand shuffle (seating agent1 agent2 hand_num) hand_num w) (\<lambda>(hand, w1).
     bind_err (update_profits (seating agent1 agent2 hand_num) (hand_payoffs hand) (profits ts))
       (\<lambda>profits'.
     bind_err (update_action_counts (actions hand) (action_counts ts)) (\<lambda>counts'.
     tournament_loop shuffle agent1 agent2 rest
       \<lparr> profits = profits', action_counts = counts', hands = hands ts @ [hand] \<rparr> w1)))"

text \<open>\<^verbatim>\<open>range(num_hands)\<close>, empty when \<^verbatim>\<open>num_hands\<close> is not positive.\<close>

definition range_py :: "int \<Rightarrow> int list" where
  "range_py n = map int [0 ..< nat n]"

record tournament_results =
  matchup :: string
  total_hands :: int
  result_profits :: "string \<rightharpoonup> int"
  profit_per_100 :: "string \<rightharpoonup> pyfloat"
  action_frequencies :: "string \<rightharpoonup> (string \<rightharpoonup> int)"
  logger :: "hand_result list"

definition zero_counts :: "string \<rightharpoonup> int" where
  "zero_counts = [''CHECK'' \<mapsto> 0, ''BET'' \<mapsto> 0, ''CALL'' \<mapsto> 0, ''FOLD'' \<mapsto> 0]"

text \<open>
  \<^verbatim>\<open>run_tournament\<close>.  \<open>logged\<close> are the hands already held by the logger passed in
  (none for a fresh logger).  The dictionary comprehension of \<^verbatim>\<open>profit_per_100\<close>
  divides by \<^verbatim>\<open>num_hands\<close> and so raises \<^verbatim>\<open>ZeroDivisionError\<close> when no hand is
  asked for.
\<close>

definition run_tournament ::
  "('w \<Rightarrow> string list \<Rightarrow> string list \<times> 'w) \<Rightarrow> 'w agent \<Rightarrow> 'w agent \<Rightarrow> int
     \<Rightarrow> hand_result list \<Rightarrow> 'w \<Rightarrow> error + (tournament_results \<times> 'w)" where
  "run_tournament shuffle agent1 agent2 num_hands logged w =
     bind_err (tournament_loop shuffle agent1 agent2 (range_py num_hands)
                 \<lparr> profits = [name agent1 \<mapsto> 0, name agent2 \<mapsto> 0],
                   action_counts = [name agent1 \<mapsto> zero_counts, name agent2 \<mapsto> zero_counts],
                   hands = logged \<rparr> w) (\<lambda>(ts, w').
     if num_hands = 0 then Inl ZeroDivisionError
     else Inr (\<lparr> matchup = name agent1 @ ''_vs_'' @ name agent2,
                 total_hands = num_hands,
                 result_profits = profits ts,
                 profit_per_100 =
                   (\<lambda>n. case profits ts n of
                           None \<Rightarrow> None
                         | Some profit \<Rightarrow>
                             Some (fl (fl (of_int profit / of_int num_hands) * 100))),
                 action_frequencies = action_counts ts,
                 logger = hands ts \<rparr>, w'))"

text \<open>Both seats have a payoff and the two payoffs cancel.\<close>

definition settled :: "GameState \<Rightarrow> bool" where
  "settled st = (\<exists>x y. get_payoff st 0 = Inr x \<and> get_payoff st 1 = Inr y \<and> x + y = 0)"

text \<open>An entry of \<^verbatim>\<open>actions_taken\<close> names the agent sitting at its position, when \<open>a0\<close> has seat 0
  and \<open>a1\<close> seat 1.\<close>

definition seated :: "'w agent \<Rightarrow> 'w agent \<Rightarrow> action_data \<Rightarrow> bool" where
  "seated a0 a1 e =
     ((ev_position e = 0 \<and> ev_agent e = name a0) \<or> (ev_position e = 1 \<and> ev_agent e = name a1))"

text \<open>The payoff a hand record holds for a seat.\<close>

definition payoff_at :: "hand_result \<Rightarrow> int \<Rightarrow> int" where
  "payoff_at hand seat = (case map_of (hand_payoffs hand) seat of None \<Rightarrow> 0 | Some x \<Rightarrow> x)"

text \<open>A hand record of the tournament: in a hand with an even number \<open>agent1\<close> has seat 0 and
  \<open>agent2\<close> seat 1, in a hand with an odd number the reverse, and the two payoffs of the
  hand cancel.\<close>

definition hand_ok :: "'w agent \<Rightarrow> 'w agent \<Rightarrow> hand_result \<Rightarrow> bool" where
  "hand_ok agent1 agent2 hand =
     ((\<forall>e\<in>set (actions hand).
         if hand_id hand mod 2 = 0 then seated agent1 agent2 e else seated agent2 agent1 e)
      \<and> (\<exists>x y. hand_payoffs hand = [(0, x), (1, y)] \<and> x + y = 0))"

text \<open>The payoffs of \<open>agent1\<close> over a list of hand records (seat 0 in the even hands, seat 1
  in the odd ones), and those of \<open>agent2\<close>.\<close>

definition seat1_total :: "hand_result list \<Rightarrow> int" where
  "seat1_total hs =
     sum_list (map (\<lambda>hand. payoff_at hand (if hand_id hand mod 2 = 0 then 0 else 1)) hs)"

definition seat2_total :: "hand_result list \<Rightarrow> int" where
  "seat2_total hs =
     sum_list (map (\<lambda>hand. payoff_at hand (if hand_id hand mod 2 = 0 then 1 else 0)) hs)"

text \<open>An agent that always takes the first legal action and keeps no state, and a
  generator that leaves the deck as it is; they serve as a concrete tournament.\<close>

definition first_action_agent :: "string \<Rightarrow> unit agent" where
  "first_action_agent nm =
     \<lparr> name = nm,
       agent_choose_action =
         (\<lambda>st legal_actions pos w.
            case legal_actions of [] \<Rightarrow> Inl IndexError | a # rest \<Rightarrow> Inr (a, w)),
       observe_opponent_action = (\<lambda>st act pos w. Inr w),
       observe_result = (\<lambda>st act st' pos w. Inr w) \<rparr>"

definition no_shuffle :: "unit \<Rightarrow> string list \<Rightarrow> string list \<times> unit" where
  "no_shuffle w deck = (deck, w)"

section \<open>The opponent model and the exploitative strategy\<close>

text \<open>
  The module \<^verbatim>\<open>agents/exploitative_agent.py\<close> is imported by the package and exercised
  by the tests, but it is not among the sources; the tests show its counters
  \<^verbatim>\<open>total_facing_bet\<close> and \<^verbatim>\<open>fold_to_bet\<close> and that the fold rate is their quotient.
  The definitions of this section follow the specification instead.
\<close>

record opponent_statistics =
  total_facing_bet :: nat
  fold_to_bet :: nat

text \<open>
  Modelled from the spec: \<^verbatim>\<open>OpponentModel.observe\<close>, missing with
  \<^verbatim>\<open>agents/exploitative_agent.py\<close>.  Observing an action in the situation
  ``facing a bet'' increments the opportunity counter and the counter of the action.
\<close>

definition observe :: "string \<Rightarrow> opponent_statistics \<Rightarrow> opponent_statistics" where
  "observe act stats =
     \<lparr> total_facing_bet = total_facing_bet stats + 1,
       fold_to_bet = (if act = ''FOLD'' then fold_to_bet stats + 1 else fold_to_bet stats) \<rparr>"

text \<open>
  Modelled from the spec: \<^verbatim>\<open>OpponentModel.estimate\<close> for the fold rate facing a
  bet, missing with \<^verbatim>\<open>agents/exploitative_agent.py\<close>.  It returns
  \<^verbatim>\<open>count/opportunities\<close>, and the neutral prior when the opportunities are below the
  minimum-sample threshold; threshold and prior are configurable.
\<close>

definition estimate :: "nat \<Rightarrow> rat \<Rightarrow> opponent_statistics \<Rightarrow> rat" where
  "estimate min_samples prior stats =
     (if total_facing_bet stats < min_samples then prior
      else of_nat (fold_to_bet stats) / of_nat (total_facing_bet stats))"

definition clamp01 :: "rat \<Rightarrow> rat" where
  "clamp01 x = max 0 (min 1 x)"

text \<open>
  Modelled from the spec: the strategy of \<^verbatim>\<open>ExploitativeAgent\<close>, missing with
  \<^verbatim>\<open>agents/exploitative_agent.py\<close>.  Where the equilibrium row is pure (one action
  has probability 1) the row is passed through.  Where it is mixed, the probability of
  the bet is moved away from its equilibrium value by an amount that grows linearly
  with the estimated fold rate (higher fold rate, more bluffing; \<open>gain\<close> is the slope, not
  fixed by the specification), measured from the neutral prior and clamped to
  \<open>[0, 1]\<close>; the other action takes the rest.  The specification fixes no
  floating-point evaluation order for this arithmetic, which is exact here.
\<close>

definition is_pure :: "strategy \<Rightarrow> bool" where
  "is_pure d = list_ex (\<lambda>(a, p). p = 1) d"

definition exploitative_strategy ::
  "nat \<Rightarrow> rat \<Rightarrow> rat \<Rightarrow> opponent_statistics \<Rightarrow> string \<Rightarrow> error + strategy" where
  "exploitative_strategy min_samples prior gain stats info_set =
     bind_err (get_strategy info_set) (\<lambda>d.
     if is_pure d then Inr d
     else (case d of
             [(passive, p), (bet, q)] \<Rightarrow>
               (let q' = clamp01 (q + gain * (estimate min_samples prior stats - prior))
                in Inr [(passive, p - (q' - q)), (bet, q')])
           | _ \<Rightarrow> Inr d))"

section \<open>Properties of the game engine\<close>

lemma bind_err_simps [simp]:
  "bind_err (Inl e) f = Inl e" "bind_err (Inr x) f = f x"
  by (simp_all add: bind_err_def)

lemma bind_err_Inr_iff: "bind_err m f = Inr y \<longleftrightarrow> (\<exists>x. m = Inr x \<and> f x = Inr y)"
  by (cases m) simp_all

lemma get_legal_actions_Inr:
  assumes "get_legal_actions s = Inr legal"
  shows "(is_terminal s \<and> legal = []) \<or>
         (\<not> is_terminal s \<and>
           ((betting_history s = [] \<and> legal = [''CHECK'', ''BET'']) \<or>
            (betting_history s = [''CHECK''] \<and> legal = [''CHECK'', ''BET'']) \<or>
            (betting_history s = [''BET''] \<and> legal = [''CALL'', ''FOLD'']) \<or>
            ((\<exists>x. betting_history s = [x, ''BET'']) \<and> legal = [''CALL'', ''FOLD''])))"
proof (cases "is_terminal s")
  case True
  with assms show ?thesis by (simp add: get_legal_actions_def Let_def)
next
  case False
  show ?thesis
  proof (cases "betting_history s")
    case Nil
    with assms False show ?thesis by (simp add: get_legal_actions_def Let_def)
  next
    case (Cons x xs)
    note c1 = this
    show ?thesis
    proof (cases xs)
      case Nil
      with assms False c1 show ?thesis
        by (auto simp add: get_legal_actions_def Let_def split: if_splits)
    next
      case (Cons y ys)
      with assms False c1 show ?thesis
        by (cases ys) (auto simp add: get_legal_actions_def Let_def split: if_splits)
    qed
  qed
qed

lemma valid_cards_showdown:
  assumes "valid_cards cs"
  shows "\<exists>w. get_showdown_winner cs = Inr w \<and> (w = 0 \<or> w = 1)"
  using assms
  by (auto simp add: valid_cards_def get_showdown_winner_def lookup_def CARDS_def CARD_VALUES_def
      split: option.splits)

lemma showdown_payoffs_Inr:
  assumes "calculate_showdown_payoffs cs n = Inr p"
  shows "\<exists>w. (w = 0 \<or> w = 1) \<and> p = [w \<mapsto> n div 2, 1 - w \<mapsto> - (n div 2)]"
  using assms
  by (auto simp add: calculate_showdown_payoffs_def get_showdown_winner_def bind_err_Inr_iff
      split: if_splits)

lemma showdown_payoffs_total:
  assumes "valid_cards cs"
  shows "\<exists>p. calculate_showdown_payoffs cs n = Inr p"
  using valid_cards_showdown [OF assms]
  by (auto simp add: calculate_showdown_payoffs_def)

lemma apply_action_Inr:
  assumes "apply_action s a = Inr s'"
  shows "\<exists>legal. get_legal_actions s = Inr legal \<and> a \<in> set legal
           \<and> cards s' = cards s
           \<and> betting_history s' = betting_history s @ [a]
           \<and> pot s' = (if a = ''BET'' \<or> a = ''CALL'' then pot s + 1 else pot s)
           \<and> (is_terminal s' \<longleftrightarrow>
                 a = ''FOLD'' \<or> a = ''CALL'' \<or> betting_history s @ [a] = [''CHECK'', ''CHECK''])
           \<and> current_player s' =
                 (if is_terminal s' then current_player s else 1 - current_player s)
           \<and> (if a = ''FOLD'' then
                  payoffs s' = Some (calculate_fold_payoffs (current_player s) (pot s'))
                else if is_terminal s' then
                  (\<exists>p. calculate_showdown_payoffs (cards s) (pot s') = Inr p
                        \<and> payoffs s' = Some p)
                else payoffs s' = None)"
proof -
  from assms obtain legal where l: "get_legal_actions s = Inr legal"
    by (auto simp add: apply_action_def bind_err_Inr_iff)
  with assms have m: "a \<in> set legal"
    by (auto simp add: apply_action_def split: if_splits)
  show ?thesis
    using assms l m
    by (auto simp add: apply_action_def Let_def BET_SIZE_def bind_err_Inr_iff
        split: if_splits)
qed

lemma apply_action_total:
  assumes "get_legal_actions s = Inr legal" "a \<in> set legal" "valid_cards (cards s)"
  shows "\<exists>s'. apply_action s a = Inr s'"
proof -
  obtain p1 where p1: "calculate_showdown_payoffs (cards s) (pot s + BET_SIZE) = Inr p1"
    using showdown_payoffs_total [OF assms(3)] by blast
  obtain p2 where p2: "calculate_showdown_payoffs (cards s) (pot s) = Inr p2"
    using showdown_payoffs_total [OF assms(3)] by blast
  show ?thesis
    using assms(1,2) p1 p2 by (simp add: apply_action_def Let_def)
qed

lemma reachable_shape:
  assumes "reachable s"
  shows "shape s \<in> set play_shapes"
  using assms
proof (induction rule: reachable.induct)
  case (start deck)
  then show ?case by (simp add: shape_def play_shapes_def start_new_hand_def ANTE_def)
next
  case (step s a s')
  from apply_action_Inr [OF step.hyps(2)] obtain legal where
    l: "get_legal_actions s = Inr legal" "a \<in> set legal"
    and h: "betting_history s' = betting_history s @ [a]"
    and p: "pot s' = (if a = ''BET'' \<or> a = ''CALL'' then pot s + 1 else pot s)"
    and t: "is_terminal s' \<longleftrightarrow>
                 a = ''FOLD'' \<or> a = ''CALL'' \<or> betting_history s @ [a] = [''CHECK'', ''CHECK'']"
    and c: "current_player s' =
                 (if is_terminal s' then current_player s else 1 - current_player s)"
    by blast
  from get_legal_actions_Inr [OF l(1)] l(2) step.IH show ?case
    unfolding shape_def play_shapes_def h p t c
    by (elim disjE conjE exE) (simp_all, auto)
qed

lemma reachable_seat:
  assumes "reachable s"
  shows "current_player s = 0 \<or> current_player s = 1"
  using reachable_shape [OF assms] by (auto simp add: shape_def play_shapes_def)

lemma reachable_payoffs:
  assumes "reachable s"
  shows "(is_terminal s \<longrightarrow>
            (\<exists>w. (w = 0 \<or> w = 1)
               \<and> payoffs s = Some [w \<mapsto> pot s div 2, 1 - w \<mapsto> - (pot s div 2)]))
       \<and> (\<not> is_terminal s \<longrightarrow> payoffs s = None)"
  using assms
proof (induction rule: reachable.induct)
  case (start deck)
  then show ?case by (simp add: start_new_hand_def)
next
  case (step s a s')
  note ch = apply_action_Inr [OF step.hyps(2)]
  show ?case
  proof (cases "a = ''FOLD''")
    case True
    with ch have t: "is_terminal s'"
      and p: "payoffs s' = Some (calculate_fold_payoffs (current_player s) (pot s'))"
      by auto
    from reachable_seat [OF step.hyps(1)] p have
      "payoffs s' = Some [1 - current_player s \<mapsto> pot s' div 2,
                          1 - (1 - current_player s) \<mapsto> - (pot s' div 2)]"
      by (simp add: calculate_fold_payoffs_def)
    moreover have "1 - current_player s = 0 \<or> 1 - current_player s = 1"
      using reachable_seat [OF step.hyps(1)] by auto
    ultimately show ?thesis using t by blast
  next
    case False
    show ?thesis
    proof (cases "is_terminal s'")
      case True
      with False ch obtain p where p: "calculate_showdown_payoffs (cards s) (pot s') = Inr p"
        "payoffs s' = Some p" by auto
      from showdown_payoffs_Inr [OF p(1)] obtain w where
        "w = 0 \<or> w = 1" "p = [w \<mapsto> pot s' div 2, 1 - w \<mapsto> - (pot s' div 2)]"
        by blast
      with p(2) True show ?thesis by blast
    next
      case nt: False
      with False ch have "payoffs s' = None" by auto
      with nt show ?thesis by simp
    qed
  qed
qed

lemmas engine_eval =
  apply_action_def get_legal_actions_def start_new_hand_def deal_cards_def
  calculate_fold_payoffs_def calculate_showdown_payoffs_def get_showdown_winner_def
  lookup_def CARDS_def CARD_VALUES_def ANTE_def BET_SIZE_def Let_def valid_cards_def
  get_payoff_def

lemma reachable_hand_bet: "reachable hand_bet"
proof -
  have "reachable (start_new_hand CARDS)"
    by (rule reachable.start) (simp_all add: CARDS_def)
  moreover have "apply_action (start_new_hand CARDS) ''BET'' = Inr hand_bet"
    by (simp add: engine_eval hand_bet_def)
  ultimately show ?thesis by (rule reachable.step)
qed

lemma reachable_hand_bet_fold: "reachable hand_bet_fold"
proof -
  have "apply_action hand_bet ''FOLD'' = Inr hand_bet_fold"
    by (simp add: engine_eval hand_bet_def hand_bet_fold_def)
  with reachable_hand_bet show ?thesis by (rule reachable.step)
qed

subsection \<open>Claims about the engine\<close>

text \<open>
  \<^bold>\<open>C1.\<close>  For a non-terminal state \<open>s\<close> whose seats hold cards of the deck and an action
  \<open>a\<close> among \<open>get_legal_actions s\<close>, \<open>apply_action s a\<close> returns a state whose history is
  that of \<open>s\<close> with \<open>a\<close> appended; the pot grows by one unit for BET and CALL and is
  unchanged for CHECK and FOLD; the result is terminal exactly when \<open>a\<close> is FOLD, or \<open>a\<close>
  is CALL, or the new history is CHECK, CHECK; a non-terminal result has the other seat
  to act.  An action outside \<open>get_legal_actions s\<close> is refused with the illegal-action
  error.  After CHECK then BET from an empty history the state is not terminal, the seat
  to act is the one that checked, and it may CALL or FOLD.  The properties of the result
  hold whenever \<open>apply_action\<close> returns, whatever the cards; the cards are consulted
  only at a showdown, so a legal action that leads to none is always applied.
\<close>

theorem apply_action_spec:
  "(\<forall>legal. \<not> is_terminal s \<and> get_legal_actions s = Inr legal \<and> a \<in> set legal
        \<and> valid_cards (cards s) \<longrightarrow>
      (\<exists>s'. apply_action s a = Inr s'
         \<and> betting_history s' = betting_history s @ [a]
         \<and> (a = ''BET'' \<or> a = ''CALL'' \<longrightarrow> pot s' = pot s + 1)
         \<and> (a = ''CHECK'' \<or> a = ''FOLD'' \<longrightarrow> pot s' = pot s)
         \<and> (is_terminal s' \<longleftrightarrow>
               a = ''FOLD'' \<or> a = ''CALL'' \<or> betting_history s' = [''CHECK'', ''CHECK''])
         \<and> (\<not> is_terminal s' \<longrightarrow> current_player s' = 1 - current_player s)))
 \<and> (\<forall>legal. get_legal_actions s = Inr legal \<and> a \<notin> set legal \<longrightarrow>
        apply_action s a = Inl IllegalAction)
 \<and> (\<forall>s1 s2. betting_history s = [] \<and> apply_action s ''CHECK'' = Inr s1
        \<and> apply_action s1 ''BET'' = Inr s2 \<longrightarrow>
        betting_history s2 = [''CHECK'', ''BET''] \<and> \<not> is_terminal s2
        \<and> current_player s2 = current_player s
        \<and> get_legal_actions s2 = Inr [''CALL'', ''FOLD''])
 \<and> (\<forall>s'. apply_action s a = Inr s' \<longrightarrow>
        betting_history s' = betting_history s @ [a]
        \<and> (a = ''BET'' \<or> a = ''CALL'' \<longrightarrow> pot s' = pot s + 1)
        \<and> (a = ''CHECK'' \<or> a = ''FOLD'' \<longrightarrow> pot s' = pot s)
        \<and> (is_terminal s' \<longleftrightarrow>
              a = ''FOLD'' \<or> a = ''CALL'' \<or> betting_history s' = [''CHECK'', ''CHECK''])
        \<and> (\<not> is_terminal s' \<longrightarrow> current_player s' = 1 - current_player s))
 \<and> (\<forall>legal. get_legal_actions s = Inr legal \<and> a \<in> set legal \<and> a \<noteq> ''CALL''
        \<and> betting_history s @ [a] \<noteq> [''CHECK'', ''CHECK''] \<longrightarrow>
        (\<exists>s'. apply_action s a = Inr s'))"
proof (intro conjI allI impI)
  fix s'
  assume s': "apply_action s a = Inr s'"
  from apply_action_Inr [OF s'] obtain legal where
    l: "get_legal_actions s = Inr legal" "a \<in> set legal"
    and r: "betting_history s' = betting_history s @ [a]"
      "pot s' = (if a = ''BET'' \<or> a = ''CALL'' then pot s + 1 else pot s)"
      "is_terminal s' \<longleftrightarrow>
         a = ''FOLD'' \<or> a = ''CALL'' \<or> betting_history s @ [a] = [''CHECK'', ''CHECK'']"
      "current_player s' = (if is_terminal s' then current_player s else 1 - current_player s)"
    by blast
  from get_legal_actions_Inr [OF l(1)] l(2) r
  show "betting_history s' = betting_history s @ [a]"
    "a = ''BET'' \<or> a = ''CALL'' \<Longrightarrow> pot s' = pot s + 1"
    "a = ''CHECK'' \<or> a = ''FOLD'' \<Longrightarrow> pot s' = pot s"
    "is_terminal s' \<longleftrightarrow>
       a = ''FOLD'' \<or> a = ''CALL'' \<or> betting_history s' = [''CHECK'', ''CHECK'']"
    "\<not> is_terminal s' \<Longrightarrow> current_player s' = 1 - current_player s"
    by auto
next
  fix legal
  assume "get_legal_actions s = Inr legal \<and> a \<in> set legal \<and> a \<noteq> ''CALL''
        \<and> betting_history s @ [a] \<noteq> [''CHECK'', ''CHECK'']"
  then show "\<exists>s'. apply_action s a = Inr s'"
    by (auto simp add: apply_action_def Let_def)
next
  fix legal
  assume h: "\<not> is_terminal s \<and> get_legal_actions s = Inr legal \<and> a \<in> set legal
        \<and> valid_cards (cards s)"
  then obtain s' where s': "apply_action s a = Inr s'"
    using apply_action_total by blast
  from apply_action_Inr [OF s'] get_legal_actions_Inr [of s legal] h
  have "betting_history s' = betting_history s @ [a]
         \<and> (a = ''BET'' \<or> a = ''CALL'' \<longrightarrow> pot s' = pot s + 1)
         \<and> (a = ''CHECK'' \<or> a = ''FOLD'' \<longrightarrow> pot s' = pot s)
         \<and> (is_terminal s' \<longleftrightarrow>
               a = ''FOLD'' \<or> a = ''CALL'' \<or> betting_history s' = [''CHECK'', ''CHECK''])
         \<and> (\<not> is_terminal s' \<longrightarrow> current_player s' = 1 - current_player s)"
    by auto
  with s' show "\<exists>s'. apply_action s a = Inr s'
         \<and> betting_history s' = betting_history s @ [a]
         \<and> (a = ''BET'' \<or> a = ''CALL'' \<longrightarrow> pot s' = pot s + 1)
         \<and> (a = ''CHECK'' \<or> a = ''FOLD'' \<longrightarrow> pot s' = pot s)
         \<and> (is_terminal s' \<longleftrightarrow>
               a = ''FOLD'' \<or> a = ''CALL'' \<or> betting_history s' = [''CHECK'', ''CHECK''])
         \<and> (\<not> is_terminal s' \<longrightarrow> current_player s' = 1 - current_player s)"
    by blast
next
  fix legal
  assume "get_legal_actions s = Inr legal \<and> a \<notin> set legal"
  then show "apply_action s a = Inl IllegalAction"
    by (simp add: apply_action_def)
next
  fix s1 s2
  assume h: "betting_history s = [] \<and> apply_action s ''CHECK'' = Inr s1
        \<and> apply_action s1 ''BET'' = Inr s2"
  from h apply_action_Inr [of s "''CHECK''" s1]
  have 1: "betting_history s1 = [''CHECK'']" "\<not> is_terminal s1"
    "current_player s1 = 1 - current_player s"
    by auto
  from h apply_action_Inr [of s1 "''BET''" s2] 1
  have 2: "betting_history s2 = [''CHECK'', ''BET'']" "\<not> is_terminal s2"
    "current_player s2 = current_player s"
    by auto
  then have "get_legal_actions s2 = Inr [''CALL'', ''FOLD'']"
    by (simp add: get_legal_actions_def)
  with 2 show "betting_history s2 = [''CHECK'', ''BET'']" "\<not> is_terminal s2"
    "current_player s2 = current_player s" "get_legal_actions s2 = Inr [''CALL'', ''FOLD'']"
    by simp_all
qed

theorem apply_action_spec_witness:
  "\<not> is_terminal (start_new_hand CARDS)
   \<and> get_legal_actions (start_new_hand CARDS) = Inr [''CHECK'', ''BET'']
   \<and> ''BET'' \<in> set [''CHECK'', ''BET'']
   \<and> valid_cards (cards (start_new_hand CARDS))
   \<and> (\<exists>s'. apply_action (start_new_hand CARDS) ''BET'' = Inr s'
         \<and> betting_history s' = [''BET''] \<and> pot s' = 3
         \<and> \<not> is_terminal s' \<and> current_player s' = 1)
   \<and> apply_action (start_new_hand CARDS) ''CALL'' = Inl IllegalAction"
proof -
  have h: "\<not> is_terminal (start_new_hand CARDS)
     \<and> get_legal_actions (start_new_hand CARDS) = Inr [''CHECK'', ''BET'']
     \<and> ''BET'' \<in> set [''CHECK'', ''BET'']
     \<and> valid_cards (cards (start_new_hand CARDS))"
    by (simp add: engine_eval)
  have i: "get_legal_actions (start_new_hand CARDS) = Inr [''CHECK'', ''BET'']
     \<and> ''CALL'' \<notin> set [''CHECK'', ''BET'']"
    by (simp add: engine_eval)
  have p: "pot (start_new_hand CARDS) = 2" "current_player (start_new_hand CARDS) = 0"
    "betting_history (start_new_hand CARDS) = []"
    by (simp_all add: engine_eval)
  from apply_action_spec [of "start_new_hand CARDS" "''BET''"] h p
  have "\<exists>s'. apply_action (start_new_hand CARDS) ''BET'' = Inr s'
         \<and> betting_history s' = [''BET''] \<and> pot s' = 3
         \<and> \<not> is_terminal s' \<and> current_player s' = 1"
    by auto
  moreover from apply_action_spec [of "start_new_hand CARDS" "''CALL''"] i
  have "apply_action (start_new_hand CARDS) ''CALL'' = Inl IllegalAction"
    by blast
  ultimately show ?thesis using h by blast
qed

text \<open>
  \<^bold>\<open>C2.\<close>  In every terminal state reached by legal play from \<open>start_new_hand\<close> the
  payoffs are present, both seats have one, and the two sum to zero (\<open>get_payoff\<close>
  returns them); in every non-terminal state reached by play the payoffs are absent.
  The statement covers the fold, the CHECK-CHECK showdown and the BET-CALL showdown,
  which are the terminal states of \<open>reachable\<close>.
\<close>

theorem payoffs_zero_sum:
  assumes "reachable s"
  shows "(is_terminal s \<longrightarrow>
            (\<exists>p x y. payoffs s = Some p \<and> p 0 = Some x \<and> p 1 = Some y \<and> x + y = 0
               \<and> get_payoff s 0 = Inr x \<and> get_payoff s 1 = Inr y))
       \<and> (\<not> is_terminal s \<longrightarrow> payoffs s = None)"
proof (intro conjI impI)
  assume t: "is_terminal s"
  with reachable_payoffs [OF assms] obtain w where
    w: "w = 0 \<or> w = 1" "payoffs s = Some [w \<mapsto> pot s div 2, 1 - w \<mapsto> - (pot s div 2)]"
    by blast
  from w(1) show "\<exists>p x y. payoffs s = Some p \<and> p 0 = Some x \<and> p 1 = Some y \<and> x + y = 0
               \<and> get_payoff s 0 = Inr x \<and> get_payoff s 1 = Inr y"
  proof
    assume "w = 0"
    with w(2) t show ?thesis by (simp add: get_payoff_def lookup_def)
  next
    assume "w = 1"
    with w(2) t show ?thesis by (simp add: get_payoff_def lookup_def)
  qed
next
  assume "\<not> is_terminal s"
  with reachable_payoffs [OF assms] show "payoffs s = None" by blast
qed

theorem payoffs_zero_sum_witness:
  "reachable hand_bet_fold \<and> is_terminal hand_bet_fold
   \<and> get_payoff hand_bet_fold 0 = Inr 1 \<and> get_payoff hand_bet_fold 1 = Inr (- 1)
   \<and> reachable hand_bet \<and> \<not> is_terminal hand_bet \<and> payoffs hand_bet = None"
proof -
  have "get_payoff hand_bet_fold 0 = Inr 1 \<and> get_payoff hand_bet_fold 1 = Inr (- 1)"
    by (simp add: hand_bet_fold_def get_payoff_def lookup_def)
  moreover have "is_terminal hand_bet_fold" "\<not> is_terminal hand_bet"
    by (simp_all add: hand_bet_fold_def hand_bet_def)
  ultimately show ?thesis
    using payoffs_zero_sum [OF reachable_hand_bet_fold] payoffs_zero_sum [OF reachable_hand_bet]
      reachable_hand_bet_fold reachable_hand_bet
    by blast
qed

text \<open>
  A non-terminal state whose history has three actions, the last of them BET:
  \<open>get_legal_actions\<close> raises, because the source asks for a history of length one or two.
\<close>

theorem get_legal_actions_last_bet_counterexample:
  "\<not> is_terminal hand_long \<and> last (betting_history hand_long) = ''BET''
   \<and> get_legal_actions hand_long = Inl InvalidHistory
   \<and> get_legal_actions hand_long \<noteq> Inr [''CALL'', ''FOLD'']"
  by (simp add: hand_long_def get_legal_actions_def)

text \<open>
  \<^bold>\<open>C3\<close> (as amended).  \<open>get_legal_actions\<close> returns no action on a terminal state; CHECK and
  BET on the empty history and on the history of one CHECK; CALL and FOLD when the
  history has one or two actions and the last is BET; and the invalid-history error on
  every other non-terminal history, among them the histories of three or more actions
  that end in BET.  Every non-terminal state reached by play has exactly two legal
  actions.
\<close>

theorem get_legal_actions_spec:
  "(is_terminal s \<longrightarrow> get_legal_actions s = Inr [])
 \<and> (\<not> is_terminal s \<and> betting_history s = [] \<longrightarrow>
       get_legal_actions s = Inr [''CHECK'', ''BET''])
 \<and> (\<not> is_terminal s \<and> betting_history s = [''CHECK''] \<longrightarrow>
       get_legal_actions s = Inr [''CHECK'', ''BET''])
 \<and> (\<not> is_terminal s
       \<and> (length (betting_history s) = 1 \<or> length (betting_history s) = 2)
       \<and> last (betting_history s) = ''BET'' \<longrightarrow>
       get_legal_actions s = Inr [''CALL'', ''FOLD''])
 \<and> (\<not> is_terminal s \<and> betting_history s \<noteq> [] \<and> betting_history s \<noteq> [''CHECK'']
       \<and> \<not> ((length (betting_history s) = 1 \<or> length (betting_history s) = 2)
             \<and> last (betting_history s) = ''BET'') \<longrightarrow>
       get_legal_actions s = Inl InvalidHistory)
 \<and> (reachable s \<and> \<not> is_terminal s \<longrightarrow>
       (\<exists>x y. x \<noteq> y \<and> get_legal_actions s = Inr [x, y]))"
proof (intro conjI impI)
  show "get_legal_actions s = Inr []" if "is_terminal s"
    using that by (simp add: get_legal_actions_def)
  show "get_legal_actions s = Inr [''CHECK'', ''BET'']"
    if "\<not> is_terminal s \<and> betting_history s = []"
    using that by (simp add: get_legal_actions_def)
  show "get_legal_actions s = Inr [''CHECK'', ''BET'']"
    if "\<not> is_terminal s \<and> betting_history s = [''CHECK'']"
    using that by (simp add: get_legal_actions_def)
  show "get_legal_actions s = Inr [''CALL'', ''FOLD'']"
    if h: "\<not> is_terminal s
       \<and> (length (betting_history s) = 1 \<or> length (betting_history s) = 2)
       \<and> last (betting_history s) = ''BET''"
  proof -
    from h have "betting_history s = [''BET''] \<or> (\<exists>x. betting_history s = [x, ''BET''])"
      by (cases "betting_history s" rule: rev_cases)
        (auto simp add: length_Suc_conv)
    with h show ?thesis by (auto simp add: get_legal_actions_def)
  qed
  show "get_legal_actions s = Inl InvalidHistory"
    if h: "\<not> is_terminal s \<and> betting_history s \<noteq> [] \<and> betting_history s \<noteq> [''CHECK'']
       \<and> \<not> ((length (betting_history s) = 1 \<or> length (betting_history s) = 2)
             \<and> last (betting_history s) = ''BET'')"
  proof (cases "get_legal_actions s")
    case (Inl e)
    with h show ?thesis by (auto simp add: get_legal_actions_def Let_def split: if_splits)
  next
    case (Inr legal)
    from get_legal_actions_Inr [OF Inr] h show ?thesis by auto
  qed
  show "\<exists>x y. x \<noteq> y \<and> get_legal_actions s = Inr [x, y]"
    if h: "reachable s \<and> \<not> is_terminal s"
  proof -
    from h reachable_shape [of s]
    have "betting_history s = [] \<or> betting_history s = [''CHECK'']
        \<or> betting_history s = [''BET''] \<or> betting_history s = [''CHECK'', ''BET'']"
      by (auto simp add: shape_def play_shapes_def)
    with h show ?thesis by (auto simp add: get_legal_actions_def)
  qed
qed

theorem get_legal_actions_spec_witness:
  "reachable hand_bet \<and> \<not> is_terminal hand_bet \<and> length (betting_history hand_bet) = 1
   \<and> last (betting_history hand_bet) = ''BET''
   \<and> get_legal_actions hand_bet = Inr [''CALL'', ''FOLD'']
   \<and> is_terminal hand_bet_fold \<and> get_legal_actions hand_bet_fold = Inr []"
proof -
  have h: "\<not> is_terminal hand_bet \<and> length (betting_history hand_bet) = 1
     \<and> last (betting_history hand_bet) = ''BET''"
    by (simp add: hand_bet_def)
  have t: "is_terminal hand_bet_fold" by (simp add: hand_bet_fold_def)
  from get_legal_actions_spec [of hand_bet] h
  have "get_legal_actions hand_bet = Inr [''CALL'', ''FOLD'']" by blast
  moreover from get_legal_actions_spec [of hand_bet_fold] t
  have "get_legal_actions hand_bet_fold = Inr []" by blast
  ultimately show ?thesis using h t reachable_hand_bet by blast
qed

text \<open>
  After an opening BET the pot is 3, and it stays 3 when the bet is folded to.
\<close>

theorem pot_even_counterexample:
  "reachable hand_bet \<and> odd (pot hand_bet)
   \<and> reachable hand_bet_fold \<and> is_terminal hand_bet_fold \<and> odd (pot hand_bet_fold)
   \<and> 2 * (pot hand_bet_fold div 2) \<noteq> pot hand_bet_fold"
  using reachable_hand_bet reachable_hand_bet_fold
  by (simp add: hand_bet_def hand_bet_fold_def)

text \<open>
  \<^bold>\<open>C6\<close> (as amended).  In every state reached by legal play the pot is 2, 3 or 4; it is
  even exactly when no bet is outstanding (no BET so far, or the BET was called).  At
  every showdown the pot is even and the payoffs \<open>pot div 2\<close> and \<open>- (pot div 2)\<close> are
  exact halves of it; at every fold the pot is 3 and the payoffs are \<open>1\<close> and \<open>- 1\<close>,
  the division \<open>3 div 2\<close> rounding down.
\<close>

theorem pot_parity:
  assumes "reachable s"
  shows "(pot s = 2 \<or> pot s = 3 \<or> pot s = 4)
     \<and> (even (pot s) \<longleftrightarrow>
           (''BET'' \<in> set (betting_history s) \<longrightarrow> ''CALL'' \<in> set (betting_history s)))
     \<and> (is_terminal s \<and> last (betting_history s) \<noteq> ''FOLD'' \<longrightarrow>
           even (pot s) \<and> 2 * (pot s div 2) = pot s
           \<and> (\<exists>w. (w = 0 \<or> w = 1) \<and> get_payoff s w = Inr (pot s div 2)
                  \<and> get_payoff s (1 - w) = Inr (- (pot s div 2))))
     \<and> (is_terminal s \<and> last (betting_history s) = ''FOLD'' \<longrightarrow>
           pot s = 3 \<and> pot s div 2 = 1
           \<and> (\<exists>w. (w = 0 \<or> w = 1) \<and> get_payoff s w = Inr 1
                  \<and> get_payoff s (1 - w) = Inr (- 1)))"
proof -
  have sh: "shape s \<in> set play_shapes" by (rule reachable_shape [OF assms])
  have pay: "\<exists>w. (w = 0 \<or> w = 1) \<and> get_payoff s w = Inr (pot s div 2)
                  \<and> get_payoff s (1 - w) = Inr (- (pot s div 2))" if "is_terminal s"
  proof -
    from that reachable_payoffs [OF assms] obtain w where
      w: "w = 0 \<or> w = 1" "payoffs s = Some [w \<mapsto> pot s div 2, 1 - w \<mapsto> - (pot s div 2)]"
      by blast
    from w(1) have "get_payoff s w = Inr (pot s div 2)
                  \<and> get_payoff s (1 - w) = Inr (- (pot s div 2))"
      using that w(2) by (auto simp add: get_payoff_def lookup_def)
    with w(1) show ?thesis by blast
  qed
  from sh have 1: "pot s = 2 \<or> pot s = 3 \<or> pot s = 4"
    by (auto simp add: shape_def play_shapes_def)
  from sh have 2: "even (pot s) \<longleftrightarrow>
           (''BET'' \<in> set (betting_history s) \<longrightarrow> ''CALL'' \<in> set (betting_history s))"
    by (auto simp add: shape_def play_shapes_def)
  from sh have 3: "is_terminal s \<and> last (betting_history s) \<noteq> ''FOLD'' \<longrightarrow>
           even (pot s) \<and> 2 * (pot s div 2) = pot s"
    by (auto simp add: shape_def play_shapes_def)
  from sh have 4: "is_terminal s \<and> last (betting_history s) = ''FOLD'' \<longrightarrow>
           pot s = 3 \<and> pot s div 2 = 1"
    by (auto simp add: shape_def play_shapes_def)
  from 1 2 3 4 pay show ?thesis by metis
qed

theorem pot_parity_witness:
  "reachable hand_bet_fold \<and> is_terminal hand_bet_fold
   \<and> last (betting_history hand_bet_fold) = ''FOLD'' \<and> pot hand_bet_fold = 3
   \<and> pot hand_bet_fold div 2 = 1
   \<and> (\<exists>w. (w = 0 \<or> w = 1) \<and> get_payoff hand_bet_fold w = Inr 1
          \<and> get_payoff hand_bet_fold (1 - w) = Inr (- 1))"
proof -
  have h: "is_terminal hand_bet_fold \<and> last (betting_history hand_bet_fold) = ''FOLD''"
    by (simp add: hand_bet_fold_def)
  with pot_parity [OF reachable_hand_bet_fold] reachable_hand_bet_fold
  show ?thesis by blast
qed

section \<open>Properties of the equilibrium table\<close>

lemma fl_two_thirds: "fl (2 / 3) = 6004799503160661 / 9007199254740992"
  by code_simp

lemma fl_one_third: "fl (1 / 3) = 6004799503160661 / 18014398509481984"
  by code_simp

lemma distribution_ok_pure:
  "distribution_ok [a, b] [(a, 1), (b, 0)]" "distribution_ok [a, b] [(a, 0), (b, 1)]"
  by (simp_all add: distribution_ok_def float_sum_def float_add_def fl_def fl_pos_def
      ilog2_def pow2_def round_half_even_def)

lemma distribution_ok_bluff:
  "distribution_ok [''CHECK'', ''BET''] [(''CHECK'', fl (2 / 3)), (''BET'', fl (1 / 3))]"
  by code_simp

lemmas table_eval =
  get_strategy_def get_p1_strategy_def get_p2_facing_bet_def get_p2_after_check_def

lemma get_strategy_first:
  "card' \<in> set CARDS \<Longrightarrow>
     \<exists>d. get_strategy (card' @ ''.'') = Inr d \<and> distribution_ok [''CHECK'', ''BET''] d"
  by (auto simp add: CARDS_def table_eval distribution_ok_pure)

lemma get_strategy_check:
  "card' \<in> set CARDS \<Longrightarrow>
     \<exists>d. get_strategy (card' @ ''.CHECK'') = Inr d \<and> distribution_ok [''CHECK'', ''BET''] d"
  by (auto simp add: CARDS_def table_eval distribution_ok_pure distribution_ok_bluff)

lemma get_strategy_bet:
  "card' \<in> set CARDS \<Longrightarrow>
     \<exists>d. get_strategy (card' @ ''.BET'') = Inr d \<and> distribution_ok [''CALL'', ''FOLD''] d"
  by (auto simp add: CARDS_def table_eval distribution_ok_pure)

text \<open>
  \<^bold>\<open>C4.\<close>  For each of the nine information sets \<open>get_strategy\<close> returns the row of the
  equilibrium table with \<open>\<alpha> = 1/3\<close>: first to act, J and Q check and K bets; facing a
  bet, J folds and Q and K call; after a check, J checks with probability 2/3 and bets
  with probability 1/3 (the doubles nearest to these fractions), Q checks and K bets.
  At every decision point, for a seat holding a card of the deck, the distribution
  returned for the seat's information set ranges over exactly the legal actions, has
  every probability in \<open>[0, 1]\<close>, and sums to 1 within \<open>1e-6\<close>.
\<close>

theorem gto_table:
  "get_strategy ''J.'' = Inr [(''CHECK'', 1), (''BET'', 0)]
 \<and> get_strategy ''Q.'' = Inr [(''CHECK'', 1), (''BET'', 0)]
 \<and> get_strategy ''K.'' = Inr [(''CHECK'', 0), (''BET'', 1)]
 \<and> get_strategy ''J.BET'' = Inr [(''CALL'', 0), (''FOLD'', 1)]
 \<and> get_strategy ''Q.BET'' = Inr [(''CALL'', 1), (''FOLD'', 0)]
 \<and> get_strategy ''K.BET'' = Inr [(''CALL'', 1), (''FOLD'', 0)]
 \<and> get_strategy ''J.CHECK'' = Inr [(''CHECK'', fl (2 / 3)), (''BET'', fl (1 / 3))]
 \<and> \<bar>fl (2 / 3) - 2 / 3\<bar> \<le> 1 / 2 ^ 54 \<and> \<bar>fl (1 / 3) - 1 / 3\<bar> \<le> 1 / 2 ^ 55
 \<and> get_strategy ''Q.CHECK'' = Inr [(''CHECK'', 1), (''BET'', 0)]
 \<and> get_strategy ''K.CHECK'' = Inr [(''CHECK'', 0), (''BET'', 1)]
 \<and> (\<forall>s p c. \<not> is_terminal s
        \<and> betting_history s \<in> set [[], [''CHECK''], [''BET''], [''CHECK'', ''BET'']]
        \<and> cards s p = Some c \<and> c \<in> set CARDS \<longrightarrow>
        (\<exists>k d legal. get_info_set s p = Inr k \<and> get_strategy k = Inr d
            \<and> get_legal_actions s = Inr legal \<and> distribution_ok legal d))"
proof -
  have tbl: "get_strategy ''J.'' = Inr [(''CHECK'', 1), (''BET'', 0)]"
    "get_strategy ''Q.'' = Inr [(''CHECK'', 1), (''BET'', 0)]"
    "get_strategy ''K.'' = Inr [(''CHECK'', 0), (''BET'', 1)]"
    "get_strategy ''J.BET'' = Inr [(''CALL'', 0), (''FOLD'', 1)]"
    "get_strategy ''Q.BET'' = Inr [(''CALL'', 1), (''FOLD'', 0)]"
    "get_strategy ''K.BET'' = Inr [(''CALL'', 1), (''FOLD'', 0)]"
    "get_strategy ''J.CHECK'' = Inr [(''CHECK'', fl (2 / 3)), (''BET'', fl (1 / 3))]"
    "get_strategy ''Q.CHECK'' = Inr [(''CHECK'', 1), (''BET'', 0)]"
    "get_strategy ''K.CHECK'' = Inr [(''CHECK'', 0), (''BET'', 1)]"
    by (simp_all add: table_eval)
  have near: "\<bar>fl (2 / 3) - 2 / 3\<bar> \<le> 1 / 2 ^ 54" "\<bar>fl (1 / 3) - 1 / 3\<bar> \<le> 1 / 2 ^ 55"
    by (simp_all add: fl_two_thirds fl_one_third)
  have all: "\<exists>k d legal. get_info_set s p = Inr k \<and> get_strategy k = Inr d
            \<and> get_legal_actions s = Inr legal \<and> distribution_ok legal d"
    if h: "\<not> is_terminal s
        \<and> betting_history s \<in> set [[], [''CHECK''], [''BET''], [''CHECK'', ''BET'']]
        \<and> cards s p = Some c \<and> c \<in> set CARDS" for s p c
  proof -
    from h have c: "cards s p = Some c" "c \<in> set CARDS" and nt: "\<not> is_terminal s" by simp_all
    from h consider "betting_history s = []" | "betting_history s = [''CHECK'']"
      | "betting_history s = [''BET'']" | "betting_history s = [''CHECK'', ''BET'']"
      by auto
    then show ?thesis
    proof cases
      case 1
      with c nt have "get_info_set s p = Inr (c @ ''.'')"
        "get_legal_actions s = Inr [''CHECK'', ''BET'']"
        by (simp_all add: get_info_set_def lookup_def get_legal_actions_def)
      with get_strategy_first [OF c(2)] show ?thesis by blast
    next
      case 2
      with c nt have "get_info_set s p = Inr (c @ ''.CHECK'')"
        "get_legal_actions s = Inr [''CHECK'', ''BET'']"
        by (simp_all add: get_info_set_def lookup_def get_legal_actions_def)
      with get_strategy_check [OF c(2)] show ?thesis by blast
    next
      case 3
      with c nt have "get_info_set s p = Inr (c @ ''.BET'')"
        "get_legal_actions s = Inr [''CALL'', ''FOLD'']"
        by (simp_all add: get_info_set_def lookup_def get_legal_actions_def)
      with get_strategy_bet [OF c(2)] show ?thesis by blast
    next
      case 4
      with c nt have "get_info_set s p = Inr (c @ ''.BET'')"
        "get_legal_actions s = Inr [''CALL'', ''FOLD'']"
        by (simp_all add: get_info_set_def lookup_def get_legal_actions_def)
      with get_strategy_bet [OF c(2)] show ?thesis by blast
    qed
  qed
  from tbl near all show ?thesis by blast
qed

theorem gto_table_witness:
  "\<not> is_terminal hand_bet \<and> betting_history hand_bet = [''BET'']
   \<and> cards hand_bet 1 = Some ''Q'' \<and> ''Q'' \<in> set CARDS
   \<and> (\<exists>k d legal. get_info_set hand_bet 1 = Inr k \<and> get_strategy k = Inr d
         \<and> get_legal_actions hand_bet = Inr legal \<and> distribution_ok legal d)"
proof -
  have h: "\<not> is_terminal hand_bet \<and> betting_history hand_bet = [''BET'']
     \<and> cards hand_bet 1 = Some ''Q'' \<and> ''Q'' \<in> set CARDS"
    by (simp add: hand_bet_def CARDS_def)
  with gto_table show ?thesis by force
qed

text \<open>
  \<^bold>\<open>C8.\<close>  For every card \<open>c\<close>, the information-set key of a seat holding \<open>c\<close> is
  \<open>c.BET\<close> both in a state with history BET and in a state with history CHECK, BET, so
  the table is asked the same question and gives the same answer for the two histories;
  for a card of the deck the answer is a distribution over CALL and FOLD.
\<close>

theorem facing_bet_key:
  assumes "betting_history s1 = [''BET'']" "betting_history s2 = [''CHECK'', ''BET'']"
    and "cards s1 p1 = Some c" "cards s2 p2 = Some c"
  shows "get_info_set s1 p1 = Inr (c @ ''.BET'')
       \<and> get_info_set s2 p2 = Inr (c @ ''.BET'')
       \<and> bind_err (get_info_set s1 p1) get_strategy = bind_err (get_info_set s2 p2) get_strategy
       \<and> (c \<in> set CARDS \<longrightarrow>
            (\<exists>d. get_strategy (c @ ''.BET'') = Inr d \<and> distribution_ok [''CALL'', ''FOLD''] d))"
proof -
  from assms have k: "get_info_set s1 p1 = Inr (c @ ''.BET'')"
    "get_info_set s2 p2 = Inr (c @ ''.BET'')"
    by (simp_all add: get_info_set_def lookup_def)
  with get_strategy_bet [of c] show ?thesis by simp
qed

theorem facing_bet_key_witness:
  "betting_history hand_bet = [''BET''] \<and> betting_history hand_check_bet = [''CHECK'', ''BET'']
   \<and> cards hand_bet 1 = Some ''Q'' \<and> cards hand_check_bet 0 = Some ''Q''
   \<and> get_info_set hand_bet 1 = Inr ''Q.BET'' \<and> get_info_set hand_check_bet 0 = Inr ''Q.BET''
   \<and> get_strategy ''Q.BET'' = Inr [(''CALL'', 1), (''FOLD'', 0)]"
proof -
  have h: "betting_history hand_bet = [''BET'']"
    "betting_history hand_check_bet = [''CHECK'', ''BET'']"
    "cards hand_bet 1 = Some ''Q''" "cards hand_check_bet 0 = Some ''Q''"
    by (simp_all add: hand_bet_def hand_check_bet_def)
  have "get_strategy ''Q.BET'' = Inr [(''CALL'', 1), (''FOLD'', 0)]"
    by (simp add: table_eval)
  with facing_bet_key [OF h] h show ?thesis by simp
qed

section \<open>Properties of the equilibrium agent\<close>

lemma bisect_right_le:
  "lo \<le> hi \<Longrightarrow> bisect_right a x lo hi \<le> hi"
proof (induction a x lo hi rule: bisect_right.induct)
  case (1 a x lo hi)
  show ?case
  proof (cases "lo < hi")
    case False
    with "1.prems" show ?thesis by (subst bisect_right.simps) simp
  next
    case True
    let ?mid = "(lo + hi) div 2"
    from True have m: "lo \<le> ?mid" "?mid < hi" "?mid + 1 \<le> hi" by auto
    show ?thesis
    proof (cases "x < a ! ?mid")
      case lt: True
      from "1.IH"(1) [OF True refl lt m(1)] m(2) have "bisect_right a x lo ?mid \<le> hi"
        by simp
      with True lt show ?thesis by (subst bisect_right.simps) (simp add: Let_def)
    next
      case ge: False
      from "1.IH"(2) [OF True refl ge m(3)] have "bisect_right a x (?mid + 1) hi \<le> hi" .
      with True ge show ?thesis by (subst bisect_right.simps) (simp add: Let_def)
    qed
  qed
qed

lemma random_choices_mem:
  assumes "random_choices population weights u = Inr a"
  shows "a \<in> set population"
proof -
  let ?cum = "accumulate weights"
  from assms have n: "length ?cum = length population" "?cum \<noteq> []"
    and a: "a = population ! bisect_right ?cum (fl (u * last ?cum)) 0 (length population - 1)"
    by (auto simp add: random_choices_def Let_def split: if_splits)
  from n have pos: "0 < length population" by (cases population) auto
  have "bisect_right ?cum (fl (u * last ?cum)) 0 (length population - 1) \<le> length population - 1"
    by (rule bisect_right_le) simp
  with pos have "bisect_right ?cum (fl (u * last ?cum)) 0 (length population - 1) < length population"
    by arith
  with a show ?thesis by simp
qed

lemma random_choice_mem:
  assumes "random_choice seq r = Inr a"
  shows "a \<in> set seq"
  using assms by (auto simp add: random_choice_def split: if_splits)

lemma choose_action_mem:
  assumes "choose_action state legal_actions p r u = Inr a"
  shows "a \<in> set legal_actions"
proof -
  from assms obtain info strat where
    i: "get_info_set state p = Inr info" "get_strategy info = Inr strat"
    by (auto simp add: choose_action_def bind_err_Inr_iff)
  let ?ls = "filter (\<lambda>(a, p). a \<in> set legal_actions) strat"
  show ?thesis
  proof (cases "?ls = []")
    case True
    with assms i have "random_choice legal_actions r = Inr a"
      by (simp add: choose_action_def)
    then show ?thesis by (rule random_choice_mem)
  next
    case False
    with assms i obtain ws where "random_choices (map fst ?ls) ws u = Inr a"
      by (auto simp add: choose_action_def Let_def bind_err_Inr_iff)
    then have "a \<in> set (map fst ?ls)" by (rule random_choices_mem)
    then show ?thesis by auto
  qed
qed

lemma choose_action_fallback:
  assumes "get_info_set state p = Inr info" "get_strategy info = Inr strat"
    and "legal_actions \<noteq> []" "set (map fst strat) \<inter> set legal_actions = {}"
  shows "choose_action state legal_actions p r u
           = Inr (legal_actions ! (r mod length legal_actions))"
proof -
  from assms(4) have "filter (\<lambda>(a, p). a \<in> set legal_actions) strat = []"
    by (auto simp add: filter_empty_conv)
  with assms(1-3) show ?thesis
    by (simp add: choose_action_def random_choice_def)
qed

lemma fl_values:
  "fl 0 = 0" "fl 1 = 1"
  "fl (fl (2 / 3)) = fl (2 / 3)" "fl (fl (1 / 3)) = fl (1 / 3)"
  "fl (fl (2 / 3) + fl (1 / 3)) = 1" "0 < fl (2 / 3)" "0 < fl (1 / 3)"
  by code_simp+

lemma acc1: "accumulate [1, 0] = [1, 1]"
  by (simp add: accumulate_def float_add_def fl_values)

lemma bis1: "u < 1 \<Longrightarrow> bisect_right [1, 1] u 0 (Suc 0) = 0"
  by (simp add: bisect_right.simps [of _ _ 0 "Suc 0"] bisect_right.simps [of _ _ 0 0])

lemma bis2: "\<not> u < c \<Longrightarrow> bisect_right [c, d] u 0 (Suc 0) = Suc 0"
  by (simp add: bisect_right.simps [of _ _ 0 "Suc 0"] bisect_right.simps [of _ _ "Suc 0" "Suc 0"])

lemma bis3: "u < c \<Longrightarrow> bisect_right [c, d] u 0 (Suc 0) = 0"
  by (simp add: bisect_right.simps [of _ _ 0 "Suc 0"] bisect_right.simps [of _ _ 0 0])

lemma acc2: "accumulate [0, 1] = [0, 1]"
  by (simp add: accumulate_def float_add_def fl_values)

lemma acc3: "accumulate [fl (2 / 3), fl (1 / 3)] = [fl (2 / 3), 1]"
  by (simp add: accumulate_def float_add_def fl_values)

lemma sample_pure_first:
  assumes "0 \<le> u" "u < 1" "fl u = u"
  shows "random_choices [a, b] [1, 0] u = Inr a"
  using assms by (simp add: random_choices_def acc1 bis3)

lemma sample_pure_second:
  assumes "0 \<le> u" "u < 1" "fl u = u"
  shows "random_choices [a, b] [0, 1] u = Inr b"
  using assms by (simp add: random_choices_def acc2 bis2)

lemma sample_bluff:
  assumes "0 \<le> u" "u < 1" "fl u = u"
  shows "random_choices [a, b] [fl (2 / 3), fl (1 / 3)] u = Inr (if u < fl (2 / 3) then a else b)"
  using assms by (simp add: random_choices_def acc3 bis2 bis3)

lemma float_sum_values:
  "float_sum [1, 0] = 1" "float_sum [0, 1] = 1" "float_sum [fl (2 / 3), fl (1 / 3)] = 1"
  by (simp_all add: float_sum_def float_add_def fl_values)

lemma normalize_one: "normalize [x, y] 1 = Inr [fl x, fl y]"
  by (simp add: float_div_def)

lemma choose_action_pure_first:
  assumes "get_info_set s p = Inr k" "get_strategy k = Inr [(a, 1), (b, 0)]"
    and "0 \<le> u" "u < 1" "fl u = u"
  shows "choose_action s [a, b] p r u = Inr a"
  using assms
  by (simp add: choose_action_def float_sum_values float_div_def fl_values sample_pure_first)

lemma choose_action_pure_second:
  assumes "get_info_set s p = Inr k" "get_strategy k = Inr [(a, 0), (b, 1)]"
    and "0 \<le> u" "u < 1" "fl u = u"
  shows "choose_action s [a, b] p r u = Inr b"
  using assms
  by (simp add: choose_action_def float_sum_values float_div_def fl_values sample_pure_second)

lemma choose_action_bluff:
  assumes "get_info_set s p = Inr k"
    and "get_strategy k = Inr [(a, fl (2 / 3)), (b, fl (1 / 3))]"
    and "0 \<le> u" "u < 1" "fl u = u"
  shows "choose_action s [a, b] p r u = Inr (if u < fl (2 / 3) then a else b)"
  using assms
  by (simp add: choose_action_def float_sum_values float_div_def fl_values sample_bluff
      del: if_split)

lemma choose_action_in_play:
  assumes nt: "\<not> is_terminal s"
    and h: "betting_history s \<in> set [[], [''CHECK''], [''BET''], [''CHECK'', ''BET'']]"
    and c: "cards s p = Some c" "c \<in> set CARDS"
    and u: "0 \<le> u" "u < 1" "fl u = u"
  shows "\<exists>legal k a. get_legal_actions s = Inr legal \<and> get_info_set s p = Inr k
           \<and> choose_action s legal p r u = Inr a \<and> a \<in> set legal \<and> positive_in k a"
proof -
  from h consider "betting_history s = []" | "betting_history s = [''CHECK'']"
    | "betting_history s = [''BET'']" | "betting_history s = [''CHECK'', ''BET'']"
    by auto
  then show ?thesis
  proof cases
    case 1
    with c nt have k: "get_info_set s p = Inr (c @ ''.'')"
      and l: "get_legal_actions s = Inr [''CHECK'', ''BET'']"
      by (simp_all add: get_info_set_def lookup_def get_legal_actions_def)
    from c(2) consider "c = ''J''" | "c = ''Q''" | "c = ''K''" by (auto simp add: CARDS_def)
    then show ?thesis
    proof cases
      case 1
      then have t: "get_strategy (c @ ''.'') = Inr [(''CHECK'', 1), (''BET'', 0)]"
        by (simp add: table_eval)
      from choose_action_pure_first [OF k t u] k l t show ?thesis
        by (simp add: positive_in_def)
    next
      case 2
      then have t: "get_strategy (c @ ''.'') = Inr [(''CHECK'', 1), (''BET'', 0)]"
        by (simp add: table_eval)
      from choose_action_pure_first [OF k t u] k l t show ?thesis
        by (simp add: positive_in_def)
    next
      case 3
      then have t: "get_strategy (c @ ''.'') = Inr [(''CHECK'', 0), (''BET'', 1)]"
        by (simp add: table_eval)
      from choose_action_pure_second [OF k t u] k l t show ?thesis
        by (simp add: positive_in_def)
    qed
  next
    case 2
    with c nt have k: "get_info_set s p = Inr (c @ ''.CHECK'')"
      and l: "get_legal_actions s = Inr [''CHECK'', ''BET'']"
      by (simp_all add: get_info_set_def lookup_def get_legal_actions_def)
    from c(2) consider "c = ''J''" | "c = ''Q''" | "c = ''K''" by (auto simp add: CARDS_def)
    then show ?thesis
    proof cases
      case 1
      then have t: "get_strategy (c @ ''.CHECK'')
          = Inr [(''CHECK'', fl (2 / 3)), (''BET'', fl (1 / 3))]"
        by (simp add: table_eval)
      from choose_action_bluff [OF k t u] k l t show ?thesis
        by (simp add: positive_in_def fl_values)
    next
      case 2
      then have t: "get_strategy (c @ ''.CHECK'') = Inr [(''CHECK'', 1), (''BET'', 0)]"
        by (simp add: table_eval)
      from choose_action_pure_first [OF k t u] k l t show ?thesis
        by (simp add: positive_in_def)
    next
      case 3
      then have t: "get_strategy (c @ ''.CHECK'') = Inr [(''CHECK'', 0), (''BET'', 1)]"
        by (simp add: table_eval)
      from choose_action_pure_second [OF k t u] k l t show ?thesis
        by (simp add: positive_in_def)
    qed
  next
    case 3
    with c nt have k: "get_info_set s p = Inr (c @ ''.BET'')"
      and l: "get_legal_actions s = Inr [''CALL'', ''FOLD'']"
      by (simp_all add: get_info_set_def lookup_def get_legal_actions_def)
    from c(2) consider "c = ''J''" | "c = ''Q''" | "c = ''K''" by (auto simp add: CARDS_def)
    then show ?thesis
    proof cases
      case 1
      then have t: "get_strategy (c @ ''.BET'') = Inr [(''CALL'', 0), (''FOLD'', 1)]"
        by (simp add: table_eval)
      from choose_action_pure_second [OF k t u] k l t show ?thesis
        by (simp add: positive_in_def)
    next
      case 2
      then have t: "get_strategy (c @ ''.BET'') = Inr [(''CALL'', 1), (''FOLD'', 0)]"
        by (simp add: table_eval)
      from choose_action_pure_first [OF k t u] k l t show ?thesis
        by (simp add: positive_in_def)
    next
      case 3
      then have t: "get_strategy (c @ ''.BET'') = Inr [(''CALL'', 1), (''FOLD'', 0)]"
        by (simp add: table_eval)
      from choose_action_pure_first [OF k t u] k l t show ?thesis
        by (simp add: positive_in_def)
    qed
  next
    case 4
    with c nt have k: "get_info_set s p = Inr (c @ ''.BET'')"
      and l: "get_legal_actions s = Inr [''CALL'', ''FOLD'']"
      by (simp_all add: get_info_set_def lookup_def get_legal_actions_def)
    from c(2) consider "c = ''J''" | "c = ''Q''" | "c = ''K''" by (auto simp add: CARDS_def)
    then show ?thesis
    proof cases
      case 1
      then have t: "get_strategy (c @ ''.BET'') = Inr [(''CALL'', 0), (''FOLD'', 1)]"
        by (simp add: table_eval)
      from choose_action_pure_second [OF k t u] k l t show ?thesis
        by (simp add: positive_in_def)
    next
      case 2
      then have t: "get_strategy (c @ ''.BET'') = Inr [(''CALL'', 1), (''FOLD'', 0)]"
        by (simp add: table_eval)
      from choose_action_pure_first [OF k t u] k l t show ?thesis
        by (simp add: positive_in_def)
    next
      case 3
      then have t: "get_strategy (c @ ''.BET'') = Inr [(''CALL'', 1), (''FOLD'', 0)]"
        by (simp add: table_eval)
      from choose_action_pure_first [OF k t u] k l t show ?thesis
        by (simp add: positive_in_def)
    qed
  qed
qed

text \<open>
  When an action of the row is legal but every legal action has probability zero, the
  renormalisation divides by zero: the fallback is taken only when the restricted row
  is empty.
\<close>

lemma choose_action_zero_total:
  "choose_action hand_start_K [''CHECK''] 0 0 0 = Inl ZeroDivisionError"
  by (simp add: choose_action_def get_info_set_def lookup_def hand_start_K_def table_eval
      float_sum_def float_add_def fl_values float_div_def)

text \<open>
  After CHECK, CHECK the key is \<open>Q.CHECKCHECK\<close>, which the table does not know.
\<close>

theorem choose_action_unknown_info_set_counterexample:
  "[''CHECK''] \<noteq> []
   \<and> choose_action hand_check_check [''CHECK''] 1 0 0 = Inl UnknownInfoSet"
  by (simp add: choose_action_def get_info_set_def lookup_def hand_check_check_def table_eval)

text \<open>
  \<^bold>\<open>C10\<close> (as amended).  Whenever \<open>choose_action\<close> of the equilibrium agent returns an
  action, the action is one of the given legal actions: the table's row is restricted
  to the legal actions and renormalised, and when no action of the row is legal the
  agent falls back to a random choice among the legal actions (so a non-empty list of
  legal actions disjoint from the row always yields one of its elements).  At every
  decision point of the game, for a seat holding a card of the deck and with the
  engine's legal actions, it returns a legal action, one the table gives positive
  probability.  On a state whose information set is not a key of the table the table's
  error is passed on.
\<close>

theorem choose_action_legal:
  "(\<forall>a. choose_action state legal_actions p r u = Inr a \<longrightarrow> a \<in> set legal_actions)
 \<and> (\<forall>info strat. get_info_set state p = Inr info \<and> get_strategy info = Inr strat
        \<and> legal_actions \<noteq> [] \<and> set (map fst strat) \<inter> set legal_actions = {} \<longrightarrow>
        choose_action state legal_actions p r u
          = Inr (legal_actions ! (r mod length legal_actions))
        \<and> legal_actions ! (r mod length legal_actions) \<in> set legal_actions)
 \<and> (\<forall>c. \<not> is_terminal state
        \<and> betting_history state \<in> set [[], [''CHECK''], [''BET''], [''CHECK'', ''BET'']]
        \<and> cards state p = Some c \<and> c \<in> set CARDS
        \<and> 0 \<le> u \<and> u < 1 \<and> fl u = u \<longrightarrow>
        (\<exists>legal k a. get_legal_actions state = Inr legal \<and> get_info_set state p = Inr k
            \<and> choose_action state legal p r u = Inr a \<and> a \<in> set legal \<and> positive_in k a))
 \<and> (\<forall>info e. get_info_set state p = Inr info \<and> get_strategy info = Inl e \<longrightarrow>
        choose_action state legal_actions p r u = Inl e)"
proof (intro conjI allI impI)
  fix a assume "choose_action state legal_actions p r u = Inr a"
  then show "a \<in> set legal_actions" by (rule choose_action_mem)
next
  fix info strat
  assume h: "get_info_set state p = Inr info \<and> get_strategy info = Inr strat
        \<and> legal_actions \<noteq> [] \<and> set (map fst strat) \<inter> set legal_actions = {}"
  then show "choose_action state legal_actions p r u
          = Inr (legal_actions ! (r mod length legal_actions))"
    using choose_action_fallback by blast
  from h show "legal_actions ! (r mod length legal_actions) \<in> set legal_actions"
    by simp
next
  fix c
  assume "\<not> is_terminal state
        \<and> betting_history state \<in> set [[], [''CHECK''], [''BET''], [''CHECK'', ''BET'']]
        \<and> cards state p = Some c \<and> c \<in> set CARDS
        \<and> 0 \<le> u \<and> u < 1 \<and> fl u = u"
  then show "\<exists>legal k a. get_legal_actions state = Inr legal \<and> get_info_set state p = Inr k
            \<and> choose_action state legal p r u = Inr a \<and> a \<in> set legal \<and> positive_in k a"
    using choose_action_in_play [of state p c u r] by blast
next
  fix info e
  assume "get_info_set state p = Inr info \<and> get_strategy info = Inl e"
  then show "choose_action state legal_actions p r u = Inl e"
    by (simp add: choose_action_def)
qed

theorem choose_action_legal_witness:
  "\<not> is_terminal hand_start_K \<and> betting_history hand_start_K = []
   \<and> cards hand_start_K 0 = Some ''K'' \<and> ''K'' \<in> set CARDS
   \<and> (0::rat) \<le> 1 / 2 \<and> (1::rat) / 2 < 1 \<and> fl (1 / 2) = 1 / 2
   \<and> choose_action hand_start_K [''CHECK'', ''BET''] 0 7 (1 / 2) = Inr ''BET''
   \<and> ''BET'' \<in> set [''CHECK'', ''BET'']"
proof -
  have f: "fl (1 / 2) = 1 / 2" by code_simp
  have h: "\<not> is_terminal hand_start_K \<and> betting_history hand_start_K = []
     \<and> cards hand_start_K 0 = Some ''K'' \<and> ''K'' \<in> set CARDS"
    by (simp add: hand_start_K_def CARDS_def)
  have l: "get_legal_actions hand_start_K = Inr [''CHECK'', ''BET'']"
    "get_info_set hand_start_K 0 = Inr ''K.''"
    by (simp_all add: hand_start_K_def get_legal_actions_def get_info_set_def lookup_def)
  have p: "\<not> positive_in ''K.'' ''CHECK''"
    by (simp add: positive_in_def table_eval)
  from choose_action_legal [of hand_start_K "[''CHECK'', ''BET'']" 0 7 "1 / 2"] h f l
  obtain a where a: "choose_action hand_start_K [''CHECK'', ''BET''] 0 7 (1 / 2) = Inr a"
    "a \<in> set [''CHECK'', ''BET'']" "positive_in ''K.'' a"
    by auto
  with p have "a = ''BET''" by auto
  with a h f show ?thesis by simp
qed

section \<open>Properties of seeding\<close>

text \<open>
  The deals of an engine depend on the generator state only, not on the engine object;
  so an engine whose hands are dealt right after its construction with a seed deals
  what any other such engine deals.
\<close>

lemma deal_hands_seeded:
  "fst (deal_hands shuffle n game1 g) = fst (deal_hands shuffle n game2 g)"
proof (induction n arbitrary: game1 game2 g)
  case 0
  show ?case by simp
next
  case (Suc n)
  obtain deck g' where d: "shuffle g CARDS = (deck, g')" by (cases "shuffle g CARDS")
  from Suc.IH [of "game1\<lparr>game_state := Some (start_new_hand deck)\<rparr>" g'
      "game2\<lparr>game_state := Some (start_new_hand deck)\<rparr>"]
  show ?case
    by (simp add: game_start_new_hand_def d split_beta Let_def)
qed

lemma sequential_engines_agree:
  "fst (deal_hands shuffle n (fst (game_init seed_fn (Some seed) g1))
          (snd (game_init seed_fn (Some seed) g1)))
   = fst (deal_hands shuffle n (fst (game_init seed_fn (Some seed) g2))
          (snd (game_init seed_fn (Some seed) g2)))"
  by (simp add: game_init_def)

text \<open>
  When both engines are constructed before either deals, the second engine's first
  hand is the second shuffle after seeding, not the first.
\<close>

lemma two_engines_first_hands_eq:
  "two_engines_first_hands seed_fn shuffle seed g0 =
     (deal_cards (fst (shuffle (seed_fn seed) CARDS)),
      deal_cards (fst (shuffle (snd (shuffle (seed_fn seed) CARDS)) CARDS)))"
  by (simp add: two_engines_first_hands_def game_init_def game_start_new_hand_def
      start_new_hand_def split_beta Let_def)

text \<open>
  \<^bold>\<open>C9\<close> (the code departs from the claim).  The claim is that two engines constructed with
  the same seed deal the same cards, hand for hand.  Evaluated on the interleaving of
  the repository's own reproducibility test with seed 42, the first engine deals Q to
  seat 0 and J to seat 1, the second deals K and Q: the second construction reseeds the
  generator the first engine also draws from, and the second engine's first hand is the
  generator's second shuffle.
\<close>

theorem two_engines_same_seed_differ:
  "two_engines_first_hands (\<lambda>s. if s = 42 then decks_after_seed_42 else []) tape_shuffle 42 []
     = ([0 \<mapsto> ''Q'', 1 \<mapsto> ''J''], [0 \<mapsto> ''K'', 1 \<mapsto> ''Q''])
   \<and> [(0::int) \<mapsto> ''Q'', 1 \<mapsto> ''J''] \<noteq> [(0::int) \<mapsto> ''K'', 1 \<mapsto> ''Q'']"
proof -
  have "[(0::int) \<mapsto> ''Q'', 1 \<mapsto> ''J''] 0 \<noteq> [(0::int) \<mapsto> ''K'', 1 \<mapsto> ''Q''] 0"
    by simp
  then have "[(0::int) \<mapsto> ''Q'', 1 \<mapsto> ''J''] \<noteq> [(0::int) \<mapsto> ''K'', 1 \<mapsto> ''Q'']"
    by metis
  then show ?thesis
    by (simp add: two_engines_first_hands_eq tape_shuffle_def decks_after_seed_42_def
        deal_cards_def)
qed

section \<open>Properties of the tournament runner\<close>

lemma apply_action_settles:
  assumes a: "apply_action st act = Inr st'"
    and s: "current_player st = 0 \<or> current_player st = 1"
  shows "(current_player st' = 0 \<or> current_player st' = 1)
       \<and> (is_terminal st' \<longrightarrow> settled st')"
proof -
  from apply_action_Inr [OF a] have
    cp: "current_player st' =
           (if is_terminal st' then current_player st else 1 - current_player st)"
    and pay: "if act = ''FOLD'' then
                payoffs st' = Some (calculate_fold_payoffs (current_player st) (pot st'))
              else if is_terminal st' then
                (\<exists>p. calculate_showdown_payoffs (cards st) (pot st') = Inr p
                      \<and> payoffs st' = Some p)
              else payoffs st' = None"
    by blast+
  from cp s have seat: "current_player st' = 0 \<or> current_player st' = 1"
    by (cases "is_terminal st'") auto
  have "settled st'" if t: "is_terminal st'"
  proof (cases "act = ''FOLD''")
    case True
    with pay have p: "payoffs st' = Some (calculate_fold_payoffs (current_player st) (pot st'))"
      by simp
    from s show ?thesis
    proof
      assume "current_player st = 0"
      with p t show ?thesis
        by (simp add: settled_def get_payoff_def lookup_def calculate_fold_payoffs_def)
    next
      assume "current_player st = 1"
      with p t show ?thesis
        by (simp add: settled_def get_payoff_def lookup_def calculate_fold_payoffs_def)
    qed
  next
    case False
    with pay t obtain p where p: "calculate_showdown_payoffs (cards st) (pot st') = Inr p"
      "payoffs st' = Some p" by auto
    from showdown_payoffs_Inr [OF p(1)] obtain w where
      w: "w = 0 \<or> w = 1" "p = [w \<mapsto> pot st' div 2, 1 - w \<mapsto> - (pot st' div 2)]"
      by blast
    from w(1) show ?thesis
    proof
      assume "w = 0"
      with w(2) p(2) t show ?thesis
        by (simp add: settled_def get_payoff_def lookup_def)
    next
      assume "w = 1"
      with w(2) p(2) t show ?thesis
        by (simp add: settled_def get_payoff_def lookup_def)
    qed
  qed
  with seat show ?thesis by blast
qed

lemma play_loop_result:
  assumes "play_loop agents st acts w = Inr (st', acts', w')"
    and "agents 0 = Some a0" "agents 1 = Some a1"
    and "current_player st = 0 \<or> current_player st = 1"
    and "is_terminal st \<longrightarrow> settled st"
    and "\<forall>e\<in>set acts. seated a0 a1 e"
  shows "is_terminal st' \<and> settled st' \<and> (\<forall>e\<in>set acts'. seated a0 a1 e)"
  using assms
proof (induction agents st acts w rule: play_loop.induct)
  case (1 agents st acts w)
  show ?case
  proof (cases "game_is_terminal st")
    case True
    with "1.prems"(1) have "st' = st" "acts' = acts"
      by (simp_all add: play_loop.simps [of agents st acts w])
    with True "1.prems" show ?thesis by (simp add: game_is_terminal_def)
  next
    case False
    let ?cp = "current_player st"
    note unfolded = "1.prems"(1) [unfolded play_loop.simps [of agents st acts w]]
    from unfolded False obtain ag legal act w1 crd opp w2 ns w3 where
      f: "lookup agents ?cp = Inr ag"
        "get_legal_actions st = Inr legal"
        "agent_choose_action ag st legal ?cp w = Inr (act, w1)"
        "lookup (cards st) ?cp = Inr crd"
        "lookup agents (1 - ?cp) = Inr opp"
        "observe_opponent_action opp st act (1 - ?cp) w1 = Inr w2"
        "apply_action st act = Inr ns"
        "observe_result ag st act ns ?cp w2 = Inr w3"
      and r: "play_loop agents ns
          (acts @ [\<lparr> ev_position = ?cp, ev_agent = name ag, ev_action = act, ev_card = crd \<rparr>]) w3
          = Inr (st', acts', w')"
      by (simp add: bind_err_Inr_iff split_paired_Ex) blast
    from apply_action_settles [OF f(7) "1.prems"(4)]
    have ns: "current_player ns = 0 \<or> current_player ns = 1" "is_terminal ns \<longrightarrow> settled ns"
      by simp_all
    from f(1) "1.prems"(2,3,4) have "seated a0 a1
        \<lparr> ev_position = ?cp, ev_agent = name ag, ev_action = act, ev_card = crd \<rparr>"
      by (auto simp add: seated_def lookup_def)
    with "1.prems"(6) have ev: "\<forall>e\<in>set (acts @
        [\<lparr> ev_position = ?cp, ev_agent = name ag, ev_action = act, ev_card = crd \<rparr>]).
        seated a0 a1 e"
      by simp
    from "1.IH" [OF False f(1) f(2) f(3) refl f(4) f(5) f(6) f(7) f(8) r "1.prems"(2,3) ns ev]
    show ?thesis .
  qed
qed

lemma play_hand_result:
  assumes p: "play_hand shuffle agents h w = Inr (hand, w')"
    and a: "agents 0 = Some a0" "agents 1 = Some a1"
  shows "hand_id hand = h
       \<and> (\<exists>x y. hand_payoffs hand = [(0, x), (1, y)] \<and> x + y = 0)
       \<and> (\<forall>e\<in>set (actions hand). seated a0 a1 e)"
proof -
  obtain deck w0 where d: "shuffle w CARDS = (deck, w0)" by (cases "shuffle w CARDS")
  from p d obtain st acts w1 p0 p1 where
    l: "play_loop agents (start_new_hand deck) [] w0 = Inr (st, acts, w1)"
    and g: "get_payoff st 0 = Inr p0" "get_payoff st 1 = Inr p1"
    and hd: "hand = \<lparr> hand_id = h, hand_cards = cards st, actions = acts,
                hand_betting_history = betting_history st,
                hand_payoffs = [(0, p0), (1, p1)], final_pot = pot st \<rparr>"
    by (simp add: play_hand_def bind_err_Inr_iff split_paired_Ex) blast
  have "is_terminal st \<and> settled st \<and> (\<forall>e\<in>set acts. seated a0 a1 e)"
    by (rule play_loop_result [OF l a]) (simp_all add: start_new_hand_def)
  with g hd show ?thesis by (auto simp add: settled_def)
qed

lemma update_profits_two:
  assumes "agents 0 = Some a0" "agents 1 = Some a1"
    and "pr (name a0) = Some p0" "pr (name a1) = Some p1" "name a0 \<noteq> name a1"
  shows "update_profits agents [(0, x), (1, y)] pr
           = Inr (pr(name a0 \<mapsto> p0 + x, name a1 \<mapsto> p1 + y))"
  using assms by (simp add: lookup_def)

lemma seating_seats:
  "seating agent1 agent2 h 0 = Some (if h mod 2 = 0 then agent1 else agent2)"
  "seating agent1 agent2 h 1 = Some (if h mod 2 = 0 then agent2 else agent1)"
  by (simp_all add: seating_def)

lemma tournament_step:
  assumes t: "tournament_loop shuffle agent1 agent2 (h # rest) ts w = Inr (ts', w')"
    and pr: "profits ts (name agent1) = Some p1" "profits ts (name agent2) = Some p2"
    and ne: "name agent1 \<noteq> name agent2"
  shows "\<exists>hand ts1 w1. hand_id hand = h \<and> hand_ok agent1 agent2 hand
           \<and> hands ts1 = hands ts @ [hand]
           \<and> profits ts1 (name agent1)
                = Some (p1 + payoff_at hand (if h mod 2 = 0 then 0 else 1))
           \<and> profits ts1 (name agent2)
                = Some (p2 + payoff_at hand (if h mod 2 = 0 then 1 else 0))
           \<and> tournament_loop shuffle agent1 agent2 rest ts1 w1 = Inr (ts', w')"
proof -
  let ?ag = "seating agent1 agent2 h"
  from t obtain hand w1 profits' counts' where
    ph: "play_hand shuffle ?ag h w = Inr (hand, w1)"
    and up: "update_profits ?ag (hand_payoffs hand) (profits ts) = Inr profits'"
    and rest: "tournament_loop shuffle agent1 agent2 rest
       \<lparr> profits = profits', action_counts = counts', hands = hands ts @ [hand] \<rparr> w1
       = Inr (ts', w')"
    by (simp add: bind_err_Inr_iff split_paired_Ex) blast
  let ?ts1 = "\<lparr> profits = profits', action_counts = counts', hands = hands ts @ [hand] \<rparr>"
  show ?thesis
  proof (cases "h mod 2 = 0")
    case True
    then have s: "?ag 0 = Some agent1" "?ag 1 = Some agent2" by (simp_all add: seating_seats)
    from play_hand_result [OF ph s] obtain x y where
      r: "hand_id hand = h" "hand_payoffs hand = [(0, x), (1, y)]" "x + y = 0"
        "\<forall>e\<in>set (actions hand). seated agent1 agent2 e"
      by blast
    from up r(2) update_profits_two [OF s pr ne, of x y]
    have "profits' = (profits ts)(name agent1 \<mapsto> p1 + x, name agent2 \<mapsto> p2 + y)" by simp
    with ne r True have "hand_id hand = h \<and> hand_ok agent1 agent2 hand
           \<and> hands ?ts1 = hands ts @ [hand]
           \<and> profits ?ts1 (name agent1)
                = Some (p1 + payoff_at hand (if h mod 2 = 0 then 0 else 1))
           \<and> profits ?ts1 (name agent2)
                = Some (p2 + payoff_at hand (if h mod 2 = 0 then 1 else 0))"
      by (simp add: hand_ok_def payoff_at_def)
    with rest show ?thesis by blast
  next
    case False
    then have s: "?ag 0 = Some agent2" "?ag 1 = Some agent1" by (simp_all add: seating_seats)
    from play_hand_result [OF ph s] obtain x y where
      r: "hand_id hand = h" "hand_payoffs hand = [(0, x), (1, y)]" "x + y = 0"
        "\<forall>e\<in>set (actions hand). seated agent2 agent1 e"
      by blast
    from up r(2) update_profits_two [OF s pr(2) pr(1) ne [symmetric], of x y]
    have "profits' = (profits ts)(name agent2 \<mapsto> p2 + x, name agent1 \<mapsto> p1 + y)" by simp
    with ne r False have "hand_id hand = h \<and> hand_ok agent1 agent2 hand
           \<and> hands ?ts1 = hands ts @ [hand]
           \<and> profits ?ts1 (name agent1)
                = Some (p1 + payoff_at hand (if h mod 2 = 0 then 0 else 1))
           \<and> profits ?ts1 (name agent2)
                = Some (p2 + payoff_at hand (if h mod 2 = 0 then 1 else 0))"
      by (simp add: hand_ok_def payoff_at_def)
    with rest show ?thesis by blast
  qed
qed

lemma tournament_loop_result:
  assumes "tournament_loop shuffle agent1 agent2 hs ts w = Inr (ts', w')"
    and "profits ts (name agent1) = Some p1" "profits ts (name agent2) = Some p2"
    and "name agent1 \<noteq> name agent2"
  shows "\<exists>new. hands ts' = hands ts @ new \<and> map hand_id new = hs
           \<and> (\<forall>hand\<in>set new. hand_ok agent1 agent2 hand)
           \<and> profits ts' (name agent1) = Some (p1 + seat1_total new)
           \<and> profits ts' (name agent2) = Some (p2 + seat2_total new)"
  using assms
proof (induction hs arbitrary: ts w p1 p2)
  case Nil
  then show ?case by (simp add: seat1_total_def seat2_total_def)
next
  case (Cons h rest)
  from tournament_step [OF Cons.prems] obtain hand ts1 w1 where
    s: "hand_id hand = h" "hand_ok agent1 agent2 hand" "hands ts1 = hands ts @ [hand]"
      "profits ts1 (name agent1) = Some (p1 + payoff_at hand (if h mod 2 = 0 then 0 else 1))"
      "profits ts1 (name agent2) = Some (p2 + payoff_at hand (if h mod 2 = 0 then 1 else 0))"
      "tournament_loop shuffle agent1 agent2 rest ts1 w1 = Inr (ts', w')"
    by blast
  from Cons.IH [OF s(6) s(4) s(5) Cons.prems(4)] obtain new where
    n: "hands ts' = hands ts1 @ new" "map hand_id new = rest"
      "\<forall>hand\<in>set new. hand_ok agent1 agent2 hand"
      "profits ts' (name agent1)
         = Some (p1 + payoff_at hand (if h mod 2 = 0 then 0 else 1) + seat1_total new)"
      "profits ts' (name agent2)
         = Some (p2 + payoff_at hand (if h mod 2 = 0 then 1 else 0) + seat2_total new)"
    by blast
  have "hands ts' = hands ts @ (hand # new) \<and> map hand_id (hand # new) = h # rest
           \<and> (\<forall>hand\<in>set (hand # new). hand_ok agent1 agent2 hand)
           \<and> profits ts' (name agent1) = Some (p1 + seat1_total (hand # new))
           \<and> profits ts' (name agent2) = Some (p2 + seat2_total (hand # new))"
    using s(1,2,3) n by (simp add: seat1_total_def seat2_total_def)
  then show ?case by (rule exI [of _ "hand # new"])
qed

lemma seat_totals_zero:
  assumes "\<forall>hand\<in>set hs. hand_ok agent1 agent2 hand"
  shows "seat1_total hs + seat2_total hs = 0"
  using assms
proof (induction hs)
  case Nil
  show ?case by (simp add: seat1_total_def seat2_total_def)
next
  case (Cons hand hs)
  from Cons.prems obtain x y where "hand_payoffs hand = [(0, x), (1, y)]" "x + y = 0"
    by (auto simp add: hand_ok_def)
  then have "payoff_at hand (if hand_id hand mod 2 = 0 then 0 else 1)
           + payoff_at hand (if hand_id hand mod 2 = 0 then 1 else 0) = 0"
    by (simp add: payoff_at_def)
  with Cons show ?case by (simp add: seat1_total_def seat2_total_def)
qed

lemma tournament_loop_append:
  "tournament_loop shuffle agent1 agent2 (xs @ ys) ts w
     = bind_err (tournament_loop shuffle agent1 agent2 xs ts w)
         (\<lambda>(ts1, w1). tournament_loop shuffle agent1 agent2 ys ts1 w1)"
proof (induction xs arbitrary: ts w)
  case Nil
  show ?case by simp
next
  case (Cons h rest)
  show ?case
    by (simp add: Cons.IH bind_err_def split: sum.splits prod.splits)
qed

lemma range_py_prefix:
  assumes "k \<le> n"
  shows "range_py n = range_py k @ map int [nat k ..< nat n]"
proof -
  from assms have "nat k \<le> nat n" by simp
  then have "[0 ..< nat n] = [0 ..< nat k] @ [nat k ..< nat n]"
    by (metis le_add_diff_inverse upt_add_eq_append zero_le)
  then show ?thesis by (simp add: range_py_def)
qed

text \<open>
  \<^bold>\<open>C7.\<close>  For two agents with distinct names and a tournament of \<open>n\<close> hands that
  \<open>run_tournament\<close> completes: in hand \<open>i\<close>, counted from 0, \<open>agent1\<close> has seat 0 and
  \<open>agent2\<close> seat 1 when \<open>i\<close> is even, and the reverse when \<open>i\<close> is odd; and after each
  number \<open>k\<close> of completed hands (the tournament of \<open>k\<close> hands, whose log is the first
  \<open>k\<close> hands of the log) every action of a hand is recorded under the name of the agent
  in that seat, the profit recorded under each agent's name is the sum of the payoffs
  of the seats that agent had, and the two profits sum to 0.
\<close>

theorem run_tournament_spec:
  assumes ne: "name agent1 \<noteq> name agent2"
    and run: "run_tournament shuffle agent1 agent2 n [] w = Inr (res, w')"
  shows "(\<forall>i. seating agent1 agent2 i =
             (if i mod 2 = 0 then [0 \<mapsto> agent1, 1 \<mapsto> agent2]
              else [0 \<mapsto> agent2, 1 \<mapsto> agent1]))
       \<and> (\<forall>k. 1 \<le> k \<and> k \<le> n \<longrightarrow>
             (\<exists>resk wk. run_tournament shuffle agent1 agent2 k [] w = Inr (resk, wk)
                \<and> logger resk = take (nat k) (logger res)
                \<and> map hand_id (logger resk) = range_py k
                \<and> (\<forall>hand\<in>set (logger resk). hand_ok agent1 agent2 hand)
                \<and> result_profits resk (name agent1) = Some (seat1_total (logger resk))
                \<and> result_profits resk (name agent2) = Some (seat2_total (logger resk))
                \<and> seat1_total (logger resk) + seat2_total (logger resk) = 0))"
proof (intro conjI allI impI)
  fix i
  show "seating agent1 agent2 i =
          (if i mod 2 = 0 then [0 \<mapsto> agent1, 1 \<mapsto> agent2]
           else [0 \<mapsto> agent2, 1 \<mapsto> agent1])"
    by (simp add: seating_def)
next
  fix k
  assume k: "1 \<le> k \<and> k \<le> n"
  let ?ts0 = "\<lparr> profits = [name agent1 \<mapsto> 0, name agent2 \<mapsto> 0],
                 action_counts = [name agent1 \<mapsto> zero_counts, name agent2 \<mapsto> zero_counts],
                 hands = [] \<rparr>"
  let ?rest = "map int [nat k ..< nat n]"
  from run obtain ts where
    full: "tournament_loop shuffle agent1 agent2 (range_py n) ?ts0 w = Inr (ts, w')"
    and res: "logger res = hands ts"
    by (auto simp add: run_tournament_def bind_err_Inr_iff split: if_splits)
  from k have "range_py n = range_py k @ ?rest" by (simp add: range_py_prefix)
  with full obtain tsk wk where
    pre: "tournament_loop shuffle agent1 agent2 (range_py k) ?ts0 w = Inr (tsk, wk)"
    and post: "tournament_loop shuffle agent1 agent2 ?rest tsk wk = Inr (ts, w')"
    by (auto simp add: tournament_loop_append bind_err_Inr_iff)
  have p0: "profits ?ts0 (name agent1) = Some 0" "profits ?ts0 (name agent2) = Some 0"
    using ne by simp_all
  from tournament_loop_result [OF pre p0 ne] obtain new where
    new: "hands tsk = new" "map hand_id new = range_py k"
      "\<forall>hand\<in>set new. hand_ok agent1 agent2 hand"
      "profits tsk (name agent1) = Some (seat1_total new)"
      "profits tsk (name agent2) = Some (seat2_total new)"
    by auto
  from tournament_loop_result [OF post new(4,5) ne] obtain more where
    more: "hands ts = hands tsk @ more"
    by blast
  from new(2) have "length new = nat k"
    by (metis length_map range_py_def diff_zero length_upt)
  with more new(1) res have tk: "take (nat k) (logger res) = new" by simp
  let ?resk = "\<lparr> matchup = name agent1 @ ''_vs_'' @ name agent2,
                 total_hands = k,
                 result_profits = profits tsk,
                 profit_per_100 =
                   (\<lambda>n. case profits tsk n of
                           None \<Rightarrow> None
                         | Some profit \<Rightarrow> Some (fl (fl (of_int profit / of_int k) * 100))),
                 action_frequencies = action_counts tsk,
                 logger = hands tsk \<rparr>"
  from k pre have "run_tournament shuffle agent1 agent2 k [] w = Inr (?resk, wk)"
    by (simp add: run_tournament_def)
  moreover have "logger ?resk = take (nat k) (logger res)
                \<and> map hand_id (logger ?resk) = range_py k
                \<and> (\<forall>hand\<in>set (logger ?resk). hand_ok agent1 agent2 hand)
                \<and> result_profits ?resk (name agent1) = Some (seat1_total (logger ?resk))
                \<and> result_profits ?resk (name agent2) = Some (seat2_total (logger ?resk))
                \<and> seat1_total (logger ?resk) + seat2_total (logger ?resk) = 0"
    using new tk seat_totals_zero [OF new(3)] by simp
  ultimately show "\<exists>resk wk. run_tournament shuffle agent1 agent2 k [] w = Inr (resk, wk)
                \<and> logger resk = take (nat k) (logger res)
                \<and> map hand_id (logger resk) = range_py k
                \<and> (\<forall>hand\<in>set (logger resk). hand_ok agent1 agent2 hand)
                \<and> result_profits resk (name agent1) = Some (seat1_total (logger resk))
                \<and> result_profits resk (name agent2) = Some (seat2_total (logger resk))
                \<and> seat1_total (logger resk) + seat2_total (logger resk) = 0"
    by blast
qed

lemma demo_run:
  "case run_tournament no_shuffle (first_action_agent ''A'') (first_action_agent ''B'') 2 [] () of
         Inl e \<Rightarrow> False
       | Inr (res, w') \<Rightarrow> result_profits res ''A'' = Some 0 \<and> result_profits res ''B'' = Some 0
           \<and> map hand_payoffs (logger res) = [[(0, - 1), (1, 1)], [(0, - 1), (1, 1)]]"
  by code_simp

theorem run_tournament_spec_witness:
  "name (first_action_agent ''A'') \<noteq> name (first_action_agent ''B'')
   \<and> (\<exists>res w' resk wk.
         run_tournament no_shuffle (first_action_agent ''A'') (first_action_agent ''B'') 2 [] ()
           = Inr (res, w')
       \<and> run_tournament no_shuffle (first_action_agent ''A'') (first_action_agent ''B'') 1 [] ()
           = Inr (resk, wk)
       \<and> logger resk = take 1 (logger res)
       \<and> result_profits resk ''A'' = Some (seat1_total (logger resk))
       \<and> result_profits resk ''B'' = Some (seat2_total (logger resk))
       \<and> seat1_total (logger resk) + seat2_total (logger resk) = 0)"
proof -
  let ?A = "first_action_agent ''A''" and ?B = "first_action_agent ''B''"
  have ne: "name ?A \<noteq> name ?B" by (simp add: first_action_agent_def)
  have nm: "name ?A = ''A''" "name ?B = ''B''" by (simp_all add: first_action_agent_def)
  from demo_run obtain res w' where
    run: "run_tournament no_shuffle ?A ?B 2 [] () = Inr (res, w')"
    by (cases "run_tournament no_shuffle ?A ?B 2 [] ()") auto
  from run_tournament_spec [OF ne run, THEN conjunct2, THEN spec, of 1] have
    "\<exists>resk wk. run_tournament no_shuffle ?A ?B 1 [] () = Inr (resk, wk)
        \<and> logger resk = take (nat 1) (logger res)
        \<and> map hand_id (logger resk) = range_py 1
        \<and> (\<forall>hand\<in>set (logger resk). hand_ok ?A ?B hand)
        \<and> result_profits resk (name ?A) = Some (seat1_total (logger resk))
        \<and> result_profits resk (name ?B) = Some (seat2_total (logger resk))
        \<and> seat1_total (logger resk) + seat2_total (logger resk) = 0"
    by simp
  with run ne nm show ?thesis by auto
qed

section \<open>Properties of the exploitative strategy\<close>

lemma get_strategy_rows:
  assumes "get_strategy k = Inr d"
  shows "d \<in> set [[(''CHECK'', 1), (''BET'', 0)], [(''CHECK'', 0), (''BET'', 1)],
                  [(''CALL'', 0), (''FOLD'', 1)], [(''CALL'', 1), (''FOLD'', 0)],
                  [(''CHECK'', fl (2 / 3)), (''BET'', fl (1 / 3))]]"
proof -
  obtain c h where s: "split_on (CHR ''.'') k = [c, h]"
    using assms
    by (auto simp add: get_strategy_def split: list.splits)
  with assms show ?thesis
    by (auto simp add: get_strategy_def get_p1_strategy_def get_p2_facing_bet_def
        get_p2_after_check_def split: if_splits)
qed

lemma clamp01_bluff: "clamp01 (fl (1 / 3)) = fl (1 / 3)"
  by (simp add: clamp01_def fl_one_third)

text \<open>
  \<^bold>\<open>C5.\<close>  While the opponent model holds fewer observations than the minimum-sample
  threshold (a fresh model holds none), the exploitative strategy returns, for every
  information set, exactly what the equilibrium table returns for it: the same
  distribution, or the same error for a key outside the table.  This holds for every
  threshold, prior and slope.
\<close>

theorem exploitative_reduces_to_equilibrium:
  assumes "total_facing_bet stats < min_samples"
  shows "exploitative_strategy min_samples prior gain stats info_set = get_strategy info_set"
proof (cases "get_strategy info_set")
  case (Inl e)
  then show ?thesis by (simp add: exploitative_strategy_def)
next
  case (Inr d)
  from assms have e: "estimate min_samples prior stats = prior"
    by (simp add: estimate_def)
  from get_strategy_rows [OF Inr] consider
    "is_pure d" | "d = [(''CHECK'', fl (2 / 3)), (''BET'', fl (1 / 3))]"
    by (auto simp add: is_pure_def)
  then show ?thesis
  proof cases
    case 1
    with Inr show ?thesis by (simp add: exploitative_strategy_def)
  next
    case 2
    with Inr e show ?thesis
      by (simp add: exploitative_strategy_def clamp01_bluff)
  qed
qed

theorem exploitative_reduces_to_equilibrium_witness:
  "total_facing_bet \<lparr> total_facing_bet = 0, fold_to_bet = 0 \<rparr> < 5
   \<and> exploitative_strategy 5 (1 / 2) (1 / 2) \<lparr> total_facing_bet = 0, fold_to_bet = 0 \<rparr> ''J.CHECK''
       = Inr [(''CHECK'', fl (2 / 3)), (''BET'', fl (1 / 3))]"
proof -
  have h: "total_facing_bet \<lparr> total_facing_bet = 0, fold_to_bet = 0 \<rparr> < 5" by simp
  have "get_strategy ''J.CHECK'' = Inr [(''CHECK'', fl (2 / 3)), (''BET'', fl (1 / 3))]"
    by (simp add: table_eval)
  with exploitative_reduces_to_equilibrium [OF h, of "1 / 2" "1 / 2" "''J.CHECK''"] h
  show ?thesis by simp
qed

text \<open>
  With enough data the model does move: after thirty observed folds the bet with the
  low card after a check is more likely than at equilibrium.
\<close>

lemma exploitative_bluffs_more_against_folders:
  "exploitative_strategy 5 (1 / 2) (1 / 2) ((observe ''FOLD'' ^^ 30) \<lparr> total_facing_bet = 0, fold_to_bet = 0 \<rparr>)
       ''J.CHECK''
     = Inr [(''CHECK'', fl (2 / 3) - 1 / 4), (''BET'', fl (1 / 3) + 1 / 4)]"
  by code_simp

end
